theory Spec2Isabelle
  imports Complex_Main "HOL-Library.AList" "HOL-Library.Char_ord" "HOL-Library.List_Lexorder"
begin

section \<open>Jupyter-bridge: the rendezvous relay of \<^verbatim>\<open>server/jupyter_bridge.py\<close>\<close>

text \<open>
  The relay keeps all of its state in a Redis database: one hash per slot key
  \<^verbatim>\<open><channel>:request\<close> or \<^verbatim>\<open><channel>:reply\<close>, and one hash per day
  \<^verbatim>\<open>stat:YYYY-MM-DD\<close>. The development has three layers:
  \<^item> the Redis commands the module calls, as functions on a keyspace;
  \<^item> the module's functions (\<^verbatim>\<open>_enqueue\<close>, \<^verbatim>\<open>_dequeue\<close> and their helpers), as
    state transformers that return either a value or the exception raised;
  \<^item> the Flask handlers, as functions from a request to a response.

  Byte strings and text are both \<open>string\<close>; \<^verbatim>\<open>decode('utf-8')\<close> is the identity
  (the keys and counters the module writes are ASCII, and UTF-8 keeps the order of code
  points, so sorting decoded text is sorting the bytes). Durations are exact reals where
  the module computes with floats. The transaction id is only written to the log and is
  left out, as is the log itself.
\<close>

subsection \<open>Constants of the module\<close>

type_synonym bytes = string

definition EXPIRE_SECS :: real where "EXPIRE_SECS = 60 * 60 * 24"

definition DEQUEUE_BUSY_STATUS :: bytes where "DEQUEUE_BUSY_STATUS = ''busy''"
definition DEQUEUE_IDLE_STATUS :: bytes where "DEQUEUE_IDLE_STATUS = ''idle''"

definition HTTP_OK :: nat where "HTTP_OK = 200"
definition HTTP_SYS_ERR :: nat where "HTTP_SYS_ERR = 500"
definition HTTP_TIMEOUT :: nat where "HTTP_TIMEOUT = 408"
definition HTTP_TOO_MANY :: nat where "HTTP_TOO_MANY = 429"

definition MESSAGE :: bytes where "MESSAGE = ''message''"
definition POSTED_TIME :: bytes where "POSTED_TIME = ''posted_time''"
definition PICKUP_TIME :: bytes where "PICKUP_TIME = ''pickup_time''"
definition DEQUEUE_BUSY :: bytes where "DEQUEUE_BUSY = ''dequeue_busy''"
definition REPLY_FAST_POLLS_LEFT :: bytes where "REPLY_FAST_POLLS_LEFT = ''reply_fast_polls_left''"

definition REPLY :: string where "REPLY = ''reply''"
definition REQUEST :: string where "REQUEST = ''request''"
definition STATISTIC :: string where "STATISTIC = ''stat''"
definition COUNT :: string where "COUNT = ''count''"

lemmas field_names =
  MESSAGE_def POSTED_TIME_def PICKUP_TIME_def DEQUEUE_BUSY_def REPLY_FAST_POLLS_LEFT_def

lemmas key_names = REPLY_def REQUEST_def STATISTIC_def COUNT_def

lemmas status_names = DEQUEUE_BUSY_STATUS_def DEQUEUE_IDLE_STATUS_def

text \<open>
  The values read from the environment when the module is loaded
  (\<^verbatim>\<open>JUPYTER_DEQUEUE_TIMEOUT_SECS\<close> and the others); the defaults are 15, 0.1, 2 and 10.
\<close>

record config =
  DEQUEUE_TIMEOUT_SECS :: real
  FAST_DEQUEUE_POLLING_SECS :: real
  SLOW_DEQUEUE_POLLING_SECS :: real
  ALLOWED_FAST_DEQUEUE_POLLS :: int

definition default_config :: config where
  "default_config =
     \<lparr>DEQUEUE_TIMEOUT_SECS = 15, FAST_DEQUEUE_POLLING_SECS = 1 / 10,
      SLOW_DEQUEUE_POLLING_SECS = 2, ALLOWED_FAST_DEQUEUE_POLLS = 10\<rparr>"

text \<open>
  What the host clock says during a call: the text of \<^verbatim>\<open>time.asctime()\<close> and the
  calendar date that \<^verbatim>\<open>time.strftime\<close> formats.
\<close>

record timestamps =
  asctime :: string
  year :: nat
  month :: nat
  mday :: nat

subsection \<open>Integers as text\<close>

definition digit_char :: "nat \<Rightarrow> char" where
  "digit_char d = ''0123456789'' ! (d mod 10)"

fun digits_of :: "nat \<Rightarrow> string" where
  "digits_of n = (if n < 10 then [digit_char n] else digits_of (n div 10) @ [digit_char (n mod 10)])"

declare digits_of.simps [simp del]

text \<open>\<^verbatim>\<open>str(i)\<close>, which is also how the Redis client encodes an integer value.\<close>

definition str_int :: "int \<Rightarrow> string" where
  "str_int i = (if i < 0 then CHR ''-'' # digits_of (nat (- i)) else digits_of (nat i))"

text \<open>The value of an ASCII digit, by its code (\<open>0\<close> is 48).\<close>

definition digit_val :: "char \<Rightarrow> nat option" where
  "digit_val c =
     (let code = (of_char c :: nat) in if 48 \<le> code \<and> code \<le> 57 then Some (code - 48) else None)"

text \<open>
  The digits of an integer literal as \<^verbatim>\<open>int()\<close> reads them: at least one digit, and
  single underscores only between digits. The flag says whether the last character read
  was a digit.
\<close>

fun read_digits :: "bool \<Rightarrow> nat \<Rightarrow> string \<Rightarrow> nat option" where
  "read_digits after_digit acc [] = (if after_digit then Some acc else None)"
| "read_digits after_digit acc (c # cs) =
     (case digit_val c of
        Some d \<Rightarrow> read_digits True (10 * acc + d) cs
      | None \<Rightarrow>
          if c = CHR ''_'' \<and> after_digit then read_digits False acc cs else None)"

definition py_space :: "char \<Rightarrow> bool" where
  "py_space c \<longleftrightarrow> of_char c \<in> {9, 10, 11, 12, 13, 28, 29, 30, 31, 32 :: nat}"

text \<open>
  \<^verbatim>\<open>int(b.decode('utf-8'))\<close> on the ASCII texts: surrounding white space is dropped, one
  sign may come first, then the digits. \<open>None\<close> is the \<^verbatim>\<open>ValueError\<close>. Bytes beyond
  ASCII are read as an error as well (Python also takes the digits of other scripts; the
  module never writes them).
\<close>

definition py_int :: "string \<Rightarrow> int option" where
  "py_int s =
     (let t = rev (dropWhile py_space (rev (dropWhile py_space s)))
      in case t of
           [] \<Rightarrow> None
         | c # cs \<Rightarrow>
             if c = CHR ''-'' then map_option (\<lambda>n. - int n) (read_digits False 0 cs)
             else if c = CHR ''+'' then map_option int (read_digits False 0 cs)
             else map_option int (read_digits False 0 (c # cs)))"

text \<open>
  The integer that Redis itself accepts in a hash field it is asked to increment: the
  canonical decimal text of a signed 64-bit number, nothing else.
\<close>

definition redis_ll :: "bytes \<Rightarrow> int option" where
  "redis_ll s =
     (case py_int s of
        None \<Rightarrow> None
      | Some v \<Rightarrow> if str_int v = s \<and> - (2 ^ 63) \<le> v \<and> v < 2 ^ 63 then Some v else None)"

subsection \<open>The Redis keyspace\<close>

text \<open>
  A key holds a hash (field to value) and, after \<^verbatim>\<open>EXPIRE\<close>, the seconds left before it
  dies. Association lists, since \<^verbatim>\<open>KEYS\<close> enumerates the keys. As in Redis, a key whose
  time is up stays in the table until a command meets it: every command looks keys up
  with \<open>lookup\<close>, which does not see it.
\<close>

record entry =
  hash :: "(bytes \<times> bytes) list"
  ttl :: "real option"

type_synonym keyspace = "(string \<times> entry) list"

definition expired :: "entry \<Rightarrow> bool" where
  "expired e = (case ttl e of None \<Rightarrow> False | Some t \<Rightarrow> t \<le> 0)"

definition lookup :: "keyspace \<Rightarrow> string \<Rightarrow> entry option" where
  "lookup ks key =
     (case map_of ks key of None \<Rightarrow> None | Some e \<Rightarrow> if expired e then None else Some e)"

definition hget :: "keyspace \<Rightarrow> string \<Rightarrow> bytes \<Rightarrow> bytes option" where
  "hget ks key field = (case lookup ks key of None \<Rightarrow> None | Some e \<Rightarrow> map_of (hash e) field)"

definition hgetall :: "keyspace \<Rightarrow> string \<Rightarrow> (bytes \<times> bytes) list" where
  "hgetall ks key = (case lookup ks key of None \<Rightarrow> [] | Some e \<Rightarrow> hash e)"


text \<open>\<^verbatim>\<open>TTL\<close>: the seconds a key has left; \<open>None\<close> for a key that is missing or never expires.\<close>

definition ttl_of :: "keyspace \<Rightarrow> string \<Rightarrow> real option" where
  "ttl_of ks key = (case lookup ks key of None \<Rightarrow> None | Some e \<Rightarrow> ttl e)"

definition entry_of :: "keyspace \<Rightarrow> string \<Rightarrow> entry" where
  "entry_of ks key = (case lookup ks key of None \<Rightarrow> \<lparr>hash = [], ttl = None\<rparr> | Some e \<Rightarrow> e)"

text \<open>\<^verbatim>\<open>HMSET\<close> creates the key when it is missing, leaves its time to live alone, and answers true.\<close>

definition hmset :: "keyspace \<Rightarrow> string \<Rightarrow> (bytes \<times> bytes) list \<Rightarrow> bool \<times> keyspace" where
  "hmset ks key mapping =
     (let e = entry_of ks key
      in (True,
          AList.update key (e\<lparr>hash := fold (\<lambda>(f, v). AList.update f v) mapping (hash e)\<rparr>) ks))"

text \<open>\<^verbatim>\<open>HDEL\<close> answers how many fields it removed; a hash left empty is removed with its key.\<close>

definition hdel :: "keyspace \<Rightarrow> string \<Rightarrow> bytes \<Rightarrow> nat \<times> keyspace" where
  "hdel ks key field =
     (case lookup ks key of
        None \<Rightarrow> (0, ks)
      | Some e \<Rightarrow>
          if map_of (hash e) field = None then (0, ks)
          else (let fs = AList.delete field (hash e)
                in (1, if fs = [] then AList.delete key ks
                       else AList.update key (e\<lparr>hash := fs\<rparr>) ks)))"

text \<open>\<^verbatim>\<open>EXPIRE\<close> answers 0 for a missing key; a time to live that is not positive deletes the key.\<close>

definition expire_key :: "keyspace \<Rightarrow> string \<Rightarrow> real \<Rightarrow> nat \<times> keyspace" where
  "expire_key ks key secs =
     (case lookup ks key of
        None \<Rightarrow> (0, ks)
      | Some e \<Rightarrow>
          (1, if secs \<le> 0 then AList.delete key ks
              else AList.update key (e\<lparr>ttl := Some secs\<rparr>) ks))"

text \<open>
  \<^verbatim>\<open>HINCRBY\<close>: a missing field counts as 0; a value that is not an integer, or a sum outside
  64 bits, is an error of the server and changes nothing. \<open>hash_int\<close> is the number it
  reads.
\<close>

definition hash_int :: "keyspace \<Rightarrow> string \<Rightarrow> bytes \<Rightarrow> int option" where
  "hash_int ks key field = (case hget ks key field of None \<Rightarrow> Some 0 | Some b \<Rightarrow> redis_ll b)"

definition hincrby :: "keyspace \<Rightarrow> string \<Rightarrow> bytes \<Rightarrow> int \<Rightarrow> (int \<times> keyspace) option" where
  "hincrby ks key field n =
     (case hash_int ks key field of
        None \<Rightarrow> None
      | Some v \<Rightarrow>
          if v + n < - (2 ^ 63) \<or> 2 ^ 63 \<le> v + n then None
          else Some (v + n, snd (hmset ks key [(field, str_int (v + n))])))"


text \<open>Time passing: every time to live runs down.\<close>

definition elapse :: "real \<Rightarrow> keyspace \<Rightarrow> keyspace" where
  "elapse d ks = map (\<lambda>(k, e). (k, e\<lparr>ttl := map_option (\<lambda>t. t - d) (ttl e)\<rparr>)) ks"

subsection \<open>The world of one handler\<close>

text \<open>
  The Redis server is shared: between any two commands of a handler, other clients run
  theirs. \<open>others\<close> is what they do to the keyspace, one entry before each command of
  this handler (nothing once the list is used up). \<open>naps\<close> records every
  \<^verbatim>\<open>time.sleep\<close> of the handler, in order.
\<close>

record world =
  keyspace :: keyspace
  others :: "(keyspace \<Rightarrow> keyspace) list"
  naps :: "real list"

definition meanwhile :: "world \<Rightarrow> world" where
  "meanwhile w =
     (case others w of [] \<Rightarrow> w | g # gs \<Rightarrow> w\<lparr>keyspace := g (keyspace w), others := gs\<rparr>)"

text \<open>The exceptions the module raises or meets, and a call that returns or raises.\<close>

datatype error =
    Unprocessed string \<comment> \<open>\<^verbatim>\<open>Channel <key> contains unprocessed message\<close>\<close>
  | FailedSetting string \<comment> \<open>\<^verbatim>\<open>redis failed setting <key> to <value>\<close>\<close>
  | FailedDeleting string \<comment> \<open>\<^verbatim>\<open>redis failed deleting <key> subkey b'message'\<close>\<close>
  | FailedExpiring string \<comment> \<open>\<^verbatim>\<open>redis failed expiring <key>\<close>\<close>
  | PayloadMustBe string \<comment> \<open>\<^verbatim>\<open>Payload must be <media type>\<close>\<close>
  | ChannelMissing \<comment> \<open>\<^verbatim>\<open>Channel is missing in parameter list\<close>\<close>
  | ValueError \<comment> \<open>from \<^verbatim>\<open>int()\<close> or from \<^verbatim>\<open>time.sleep\<close> of a negative length\<close>
  | ResponseError \<comment> \<open>Redis refusing \<^verbatim>\<open>HINCRBY\<close>\<close>
  | AttributeError \<comment> \<open>\<^verbatim>\<open>startswith\<close> on a missing content type\<close>

datatype 'a outcome = Returns 'a | Raises error

type_synonym 'a action = "world \<Rightarrow> 'a outcome \<times> world"

definition seq :: "'a action \<Rightarrow> ('a \<Rightarrow> 'b action) \<Rightarrow> 'b action" where
  "seq m f w = (case m w of (Raises e, w1) \<Rightarrow> (Raises e, w1) | (Returns a, w1) \<Rightarrow> f a w1)"

definition return :: "'a \<Rightarrow> 'a action" where
  "return a w = (Returns a, w)"

definition raise :: "error \<Rightarrow> 'a action" where
  "raise e w = (Raises e, w)"

definition redis_hget :: "string \<Rightarrow> bytes \<Rightarrow> bytes option action" where
  "redis_hget key field w = (let w1 = meanwhile w in (Returns (hget (keyspace w1) key field), w1))"

definition sleep :: "real \<Rightarrow> unit action" where
  "sleep secs w =
     (if secs < 0 then (Raises ValueError, w)
      else (Returns (), w\<lparr>keyspace := elapse secs (keyspace w), naps := naps w @ [secs]\<rparr>))"

subsection \<open>The helpers of the module\<close>

definition set_key_value :: "string \<Rightarrow> (bytes \<times> bytes) list \<Rightarrow> unit action" where
  "set_key_value key value w =
     (let w1 = meanwhile w;
          (ok, ks) = hmset (keyspace w1) key value
      in if \<not> ok then (Raises (FailedSetting key), w1\<lparr>keyspace := ks\<rparr>)
         else (Returns (), w1\<lparr>keyspace := ks\<rparr>))"

definition del_message :: "string \<Rightarrow> bool \<Rightarrow> unit action" where
  "del_message key permissive w =
     (let w1 = meanwhile w;
          (n, ks) = hdel (keyspace w1) key MESSAGE
      in if n \<noteq> 1 \<and> \<not> permissive then (Raises (FailedDeleting key), w1\<lparr>keyspace := ks\<rparr>)
         else (Returns (), w1\<lparr>keyspace := ks\<rparr>))"

definition expire :: "string \<Rightarrow> unit action" where
  "expire key w =
     (let w1 = meanwhile w;
          (n, ks) = expire_key (keyspace w1) key EXPIRE_SECS
      in if n \<noteq> 1 then (Raises (FailedExpiring key), w1\<lparr>keyspace := ks\<rparr>)
         else (Returns (), w1\<lparr>keyspace := ks\<rparr>))"

definition pad2 :: "nat \<Rightarrow> string" where
  "pad2 n = (if n < 10 then CHR ''0'' # digits_of n else digits_of n)"

text \<open>\<^verbatim>\<open>time.strftime('stat:%Y-%m-%d')\<close>.\<close>

definition strftime_stat :: "timestamps \<Rightarrow> string" where
  "strftime_stat tm =
     STATISTIC @ '':'' @ digits_of (year tm) @ ''-'' @ pad2 (month tm) @ ''-'' @ pad2 (mday tm)"

definition redis_hincrby :: "string \<Rightarrow> bytes \<Rightarrow> int \<Rightarrow> int action" where
  "redis_hincrby key field n w =
     (let w1 = meanwhile w
      in case hincrby (keyspace w1) key field n of
           None \<Rightarrow> (Raises ResponseError, w1)
         | Some (v, ks) \<Rightarrow> (Returns v, w1\<lparr>keyspace := ks\<rparr>))"

definition update_stats :: "timestamps \<Rightarrow> string \<Rightarrow> bytes \<Rightarrow> unit action" where
  "update_stats tm operation msg =
     (let stat_key = strftime_stat tm
      in seq (redis_hincrby stat_key (COUNT @ '':'' @ operation) 1)
           (\<lambda>_. seq (redis_hincrby stat_key operation (int (length msg))) (\<lambda>_. return ())))"

subsection \<open>\<^verbatim>\<open>_enqueue\<close>\<close>

definition enqueue :: "timestamps \<Rightarrow> string \<Rightarrow> string \<Rightarrow> bytes \<Rightarrow> unit action" where
  "enqueue tm operation channel msg w =
     (let key = channel @ '':'' @ operation;
          w1 = meanwhile w;
          cur_value = hgetall (keyspace w1) key
      in if length cur_value = 0 \<or> MESSAGE \<notin> set (map fst cur_value) then
           seq (set_key_value key [(MESSAGE, msg), (PICKUP_TIME, []), (POSTED_TIME, asctime tm)])
             (\<lambda>_. seq (expire key) (\<lambda>_. update_stats tm operation msg)) w1
         else (Raises (Unprocessed key), w1))"

subsection \<open>\<^verbatim>\<open>_dequeue\<close>\<close>

text \<open>Python's truth of \<^verbatim>\<open>redis_db.hget(...)\<close>: neither \<^verbatim>\<open>None\<close> nor the empty byte string.\<close>

definition truthy :: "bytes option \<Rightarrow> bool" where
  "truthy v \<longleftrightarrow> v \<noteq> None \<and> v \<noteq> Some []"

text \<open>
  The polling heuristic: how many fast polls are left for this slot, and the polling
  interval of this call. \<open>fast_polls_of\<close> reads the stored counter (a missing one is the
  allowance; \<open>None\<close> is the \<^verbatim>\<open>ValueError\<close> of \<^verbatim>\<open>int()\<close>).
\<close>

definition fast_polls_of :: "config \<Rightarrow> bytes option \<Rightarrow> int option" where
  "fast_polls_of cfg stored =
     (case stored of None \<Rightarrow> Some (ALLOWED_FAST_DEQUEUE_POLLS cfg) | Some b \<Rightarrow> py_int b)"

definition cadence :: "config \<Rightarrow> string \<Rightarrow> (int \<times> real) action" where
  "cadence cfg key =
     seq (redis_hget key REPLY_FAST_POLLS_LEFT)
       (\<lambda>stored.
          case fast_polls_of cfg stored of
            None \<Rightarrow> raise ValueError
          | Some fast_polls_left \<Rightarrow>
              if fast_polls_left > 0 then
                seq (set_key_value key [(REPLY_FAST_POLLS_LEFT, str_int (fast_polls_left - 1))])
                  (\<lambda>_. return (fast_polls_left - 1, FAST_DEQUEUE_POLLING_SECS cfg))
              else return (fast_polls_left, SLOW_DEQUEUE_POLLING_SECS cfg))"

text \<open>
  The \<^verbatim>\<open>while\<close> loop. It need not end (a polling interval of 0 with no message coming):
  \<open>None\<close> is the call that never returns.
\<close>

partial_function (option) poll ::
  "string \<Rightarrow> real \<Rightarrow> bytes option \<Rightarrow> real \<Rightarrow> world \<Rightarrow> (bytes option outcome \<times> world) option"
where
  "poll key dequeue_polling_secs message dequeue_timeout_secs_left w =
     (if message = None \<and> dequeue_timeout_secs_left > 0 then
        (case sleep dequeue_polling_secs w of
           (Raises e, w1) \<Rightarrow> Some (Raises e, w1)
         | (Returns u, w1) \<Rightarrow>
             poll key dequeue_polling_secs (hget (keyspace (meanwhile w1)) key MESSAGE)
               (dequeue_timeout_secs_left - dequeue_polling_secs) (meanwhile w1))
      else Some (Returns message, w))"

declare poll.simps [code]

text \<open>
  What the reader does once it is past the interlock, the \<^verbatim>\<open>else\<close> branch of the
  \<^verbatim>\<open>try\<close> block, in three parts: up to the first read of the message (\<open>prepare\<close>), the
  loop, and what follows the loop (\<open>consume\<close>).
\<close>

definition prepare :: "config \<Rightarrow> string \<Rightarrow> bool \<Rightarrow> (real \<times> bytes option) action" where
  "prepare cfg key reset_first =
     seq (set_key_value key [(DEQUEUE_BUSY, DEQUEUE_BUSY_STATUS)])
       (\<lambda>_. seq (if reset_first then del_message key True else return ())
       (\<lambda>_. seq (set_key_value key [(PICKUP_TIME, [])])
       (\<lambda>_. seq (expire key)
       (\<lambda>_. seq (cadence cfg key)
       (\<lambda>(fast_polls_left, dequeue_polling_secs).
          seq (redis_hget key MESSAGE)
       (\<lambda>message. return (dequeue_polling_secs, message)))))))"

definition consume :: "config \<Rightarrow> timestamps \<Rightarrow> string \<Rightarrow> bytes option \<Rightarrow> bytes option action" where
  "consume cfg tm key message =
     (if truthy message then
        seq (del_message key False)
          (\<lambda>_. seq (set_key_value key
                      [(PICKUP_TIME, asctime tm),
                       (REPLY_FAST_POLLS_LEFT, str_int (ALLOWED_FAST_DEQUEUE_POLLS cfg))])
          (\<lambda>_. return message))
      else return message)"

definition dequeue_wait ::
  "config \<Rightarrow> timestamps \<Rightarrow> string \<Rightarrow> bool \<Rightarrow> world \<Rightarrow> (bytes option outcome \<times> world) option"
where
  "dequeue_wait cfg tm key reset_first w =
     (case prepare cfg key reset_first w of
        (Raises e, w1) \<Rightarrow> Some (Raises e, w1)
      | (Returns (dequeue_polling_secs, message), w1) \<Rightarrow>
          (case poll key dequeue_polling_secs message (DEQUEUE_TIMEOUT_SECS cfg) w1 of
             None \<Rightarrow> None
           | Some (Raises e, w2) \<Rightarrow> Some (Raises e, w2)
           | Some (Returns message, w2) \<Rightarrow> Some (consume cfg tm key message w2)))"

text \<open>
  The \<^verbatim>\<open>try\<close> block: the message (or the exception) it ends with, the local
  \<^verbatim>\<open>valid_reader\<close>, and the world it leaves. \<^verbatim>\<open>hget(...) or DEQUEUE_IDLE_STATUS\<close>
  takes a missing and an empty value for idle.
\<close>

definition dequeue_try ::
  "config \<Rightarrow> timestamps \<Rightarrow> string \<Rightarrow> bool \<Rightarrow> world \<Rightarrow> (bytes option outcome \<times> bool \<times> world) option"
where
  "dequeue_try cfg tm key reset_first w =
     (let w1 = meanwhile w;
          stored = hget (keyspace w1) key DEQUEUE_BUSY;
          dequeue_busy =
            (case stored of
               None \<Rightarrow> DEQUEUE_IDLE_STATUS
             | Some b \<Rightarrow> if b = [] then DEQUEUE_IDLE_STATUS else b)
      in if dequeue_busy = DEQUEUE_BUSY_STATUS then Some (Returns None, False, w1)
         else map_option (\<lambda>(r, w2). (r, True, w2)) (dequeue_wait cfg tm key reset_first w1))"

text \<open>
  \<^verbatim>\<open>_dequeue\<close>: the \<^verbatim>\<open>try\<close> block, then the \<^verbatim>\<open>finally\<close> clause, whose own exception
  replaces the pending one.
\<close>

definition dequeue ::
  "config \<Rightarrow> timestamps \<Rightarrow> string \<Rightarrow> string \<Rightarrow> bool \<Rightarrow> world
     \<Rightarrow> ((bytes option \<times> bool) outcome \<times> world) option"
where
  "dequeue cfg tm operation channel reset_first w =
     (let key = channel @ '':'' @ operation
      in case dequeue_try cfg tm key reset_first w of
           None \<Rightarrow> None
         | Some (r, valid_reader, w1) \<Rightarrow>
             (case (if valid_reader then set_key_value key [(DEQUEUE_BUSY, DEQUEUE_IDLE_STATUS)] w1
                    else (Returns (), w1)) of
                (Raises e, w2) \<Rightarrow> Some (Raises e, w2)
              | (Returns u, w2) \<Rightarrow>
                  (case r of
                     Raises e \<Rightarrow> Some (Raises e, w2)
                   | Returns message \<Rightarrow> Some (Returns (message, valid_reader), w2))))"

subsection \<open>The Flask handlers\<close>

record request =
  args :: "(string \<times> string) list"
  req_content_type :: "string option"
  data :: bytes

text \<open>
  A response body is the text or bytes handed to \<^verbatim>\<open>Response\<close>, or, on an exception,
  \<^verbatim>\<open>_exception_message(e)\<close>, which is \<^verbatim>\<open>str(e)\<close> for every exception met here.
\<close>

datatype body = Content string | Exception_message error

record response =
  status :: nat
  body :: body
  content_type :: string
  headers :: "(string \<times> string) list"

definition cors :: "(string \<times> string) list" where
  "cors = [(''Access-Control-Allow-Origin'', ''*'')]"

definition plain :: "nat \<Rightarrow> body \<Rightarrow> response" where
  "plain st b = \<lparr>status = st, body = b, content_type = ''text/plain'', headers = cors\<rparr>"

definition startswith :: "string \<Rightarrow> string \<Rightarrow> bool" where
  "startswith s p \<longleftrightarrow> take (length p) s = p"

definition add_padding :: "bytes \<Rightarrow> bytes" where
  "add_padding message = message @ replicate 1500 CHR '' ''"

text \<open>The \<^verbatim>\<open>except Exception\<close> clause of the four queue handlers.\<close>

definition caught :: "response outcome \<times> world \<Rightarrow> response \<times> world" where
  "caught rw =
     (case rw of
        (Returns r, w) \<Rightarrow> (r, w)
      | (Raises e, w) \<Rightarrow> (plain HTTP_SYS_ERR (Exception_message e), w))"

definition queue_request :: "timestamps \<Rightarrow> request \<Rightarrow> world \<Rightarrow> response \<times> world" where
  "queue_request tm req w =
     caught
       (case map_of (args req) ''channel'' of
          Some channel \<Rightarrow>
            (case req_content_type req of
               None \<Rightarrow> (Raises AttributeError, w)
             | Some ct \<Rightarrow>
                 if startswith ct ''application/json'' then
                   (let message = data req;
                        reply_key = channel @ '':'' @ REPLY
                    in seq (redis_hget reply_key MESSAGE)
                         (\<lambda>last_reply.
                            seq (if truthy last_reply then del_message reply_key False else return ())
                         (\<lambda>_. seq (enqueue tm REQUEST channel message)
                         (\<lambda>_. return (plain HTTP_OK (Content []))))) w)
                 else (Raises (PayloadMustBe ''application/json''), w))
        | None \<Rightarrow> (Raises ChannelMissing, w))"

definition queue_reply :: "timestamps \<Rightarrow> request \<Rightarrow> world \<Rightarrow> response \<times> world" where
  "queue_reply tm req w =
     caught
       (case map_of (args req) ''channel'' of
          Some channel \<Rightarrow>
            (case req_content_type req of
               None \<Rightarrow> (Raises AttributeError, w)
             | Some ct \<Rightarrow>
                 if startswith ct ''text/plain'' then
                   (let message = data req
                    in seq (enqueue tm REPLY channel message)
                         (\<lambda>_. return (plain HTTP_OK (Content []))) w)
                 else (Raises (PayloadMustBe ''text/plain''), w))
        | None \<Rightarrow> (Raises ChannelMissing, w))"

text \<open>
  \<^verbatim>\<open>dequeue_request\<close> and \<^verbatim>\<open>dequeue_reply\<close> differ in the operation only; the body they
  share is \<open>dequeue_handler\<close>.
\<close>

definition dequeue_handler ::
  "config \<Rightarrow> timestamps \<Rightarrow> string \<Rightarrow> request \<Rightarrow> world \<Rightarrow> (response \<times> world) option"
where
  "dequeue_handler cfg tm operation req w =
     (case map_of (args req) ''channel'' of
        Some channel \<Rightarrow>
          (case dequeue cfg tm operation channel (''reset'' \<in> set (map fst (args req))) w of
             None \<Rightarrow> None
           | Some (Raises e, w1) \<Rightarrow> Some (caught (Raises e, w1))
           | Some (Returns (message, valid_reader), w1) \<Rightarrow>
               Some (if valid_reader then
                       (case message of
                          None \<Rightarrow> plain HTTP_TIMEOUT (Content [])
                        | Some m \<Rightarrow>
                            \<lparr>status = HTTP_OK, body = Content (add_padding m),
                             content_type = ''application/json'', headers = cors\<rparr>)
                     else plain HTTP_TOO_MANY (Content []), w1))
      | None \<Rightarrow> Some (caught (Raises ChannelMissing, w)))"

definition dequeue_request ::
  "config \<Rightarrow> timestamps \<Rightarrow> request \<Rightarrow> world \<Rightarrow> (response \<times> world) option"
where
  "dequeue_request cfg tm = dequeue_handler cfg tm REQUEST"

definition dequeue_reply ::
  "config \<Rightarrow> timestamps \<Rightarrow> request \<Rightarrow> world \<Rightarrow> (response \<times> world) option"
where
  "dequeue_reply cfg tm = dequeue_handler cfg tm REPLY"

subsection \<open>The statistics handler\<close>









subsection \<open>Auxiliary notions for the properties\<close>

text \<open>
  The keyspace after the two slot commands of \<^verbatim>\<open>_enqueue\<close> (the multi-field set and the
  refresh of the time to live) when no other client runs a command in between.
\<close>

definition enqueued :: "timestamps \<Rightarrow> string \<Rightarrow> bytes \<Rightarrow> keyspace \<Rightarrow> keyspace" where
  "enqueued tm key msg ks =
     snd (expire_key
            (snd (hmset ks key [(MESSAGE, msg), (PICKUP_TIME, []), (POSTED_TIME, asctime tm)]))
            key EXPIRE_SECS)"

text \<open>Fixtures for the examples: a clock, a world without other clients, a request.\<close>

definition clock0 :: timestamps where
  "clock0 = \<lparr>asctime = ''Wed Nov  4 10:06:00 2026'', year = 2026, month = 11, mday = 4\<rparr>"

definition alone :: "keyspace \<Rightarrow> world" where
  "alone ks = \<lparr>keyspace = ks, others = [], naps = []\<rparr>"

definition http :: "string \<Rightarrow> string \<Rightarrow> bytes \<Rightarrow> request" where
  "http channel ct payload =
     \<lparr>args = [(''channel'', channel)], req_content_type = Some ct, data = payload\<rparr>"

definition holding :: "string \<Rightarrow> bytes \<Rightarrow> keyspace" where
  "holding key m = [(key, \<lparr>hash = [(MESSAGE, m)], ttl = Some EXPIRE_SECS\<rparr>)]"

text \<open>
  A reader that is robbed: seven commands of other clients that change nothing, then one
  that takes the message away just before the reader deletes it.
\<close>

definition thief :: "string \<Rightarrow> (keyspace \<Rightarrow> keyspace) list" where
  "thief key = replicate 7 id @ [\<lambda>ks. snd (hdel ks key MESSAGE)]"

definition impatient :: config where
  "impatient =
     \<lparr>DEQUEUE_TIMEOUT_SECS = 4, FAST_DEQUEUE_POLLING_SECS = 1 / 10,
      SLOW_DEQUEUE_POLLING_SECS = 2, ALLOWED_FAST_DEQUEUE_POLLS = 0\<rparr>"

definition waiting :: "string \<Rightarrow> keyspace" where
  "waiting key = [(key, \<lparr>hash = [(DEQUEUE_BUSY, DEQUEUE_BUSY_STATUS)], ttl = Some EXPIRE_SECS\<rparr>)]"

definition poll_request :: "string \<Rightarrow> request" where
  "poll_request channel = \<lparr>args = [(''channel'', channel)], req_content_type = None, data = []\<rparr>"

definition polled :: "string \<Rightarrow> keyspace" where
  "polled key =
     [(key, \<lparr>hash = [(DEQUEUE_BUSY, DEQUEUE_BUSY_STATUS), (REPLY_FAST_POLLS_LEFT, ''3'')],
             ttl = Some 100\<rparr>),
      (''c9:reply'', \<lparr>hash = [(MESSAGE, ''kept'')], ttl = Some 50\<rparr>)]"

text \<open>
  Another reader takes the reply between the read and the delete of \<^verbatim>\<open>queue_request\<close>:
  nothing before the handler's first command, an \<^verbatim>\<open>HDEL\<close> of the message before its
  second.
\<close>

definition taken :: "string \<Rightarrow> (keyspace \<Rightarrow> keyspace) list" where
  "taken key = [id, \<lambda>ks. snd (hdel ks key MESSAGE)]"





text \<open>
  The keyspace after the first commands of \<^verbatim>\<open>_dequeue\<close> past the interlock (set busy,
  delete the message on a reset, clear \<open>pickup_time\<close>, refresh the time to live), when no
  other client runs a command in between.
\<close>

definition prepared :: "string \<Rightarrow> bool \<Rightarrow> keyspace \<Rightarrow> keyspace" where
  "prepared key reset_first ks =
     (let ks1 = snd (hmset ks key [(DEQUEUE_BUSY, DEQUEUE_BUSY_STATUS)]);
          ks2 = (if reset_first then snd (hdel ks1 key MESSAGE) else ks1);
          ks3 = snd (hmset ks2 key [(PICKUP_TIME, [])])
      in snd (expire_key ks3 key EXPIRE_SECS))"

text \<open>The stored fast-poll counter is absent or the text of an integer that is not negative.\<close>

definition counter_ok :: "keyspace \<Rightarrow> string \<Rightarrow> bool" where
  "counter_ok ks key =
     (case hget ks key REPLY_FAST_POLLS_LEFT of
        None \<Rightarrow> True
      | Some b \<Rightarrow> (case py_int b of None \<Rightarrow> False | Some n \<Rightarrow> 0 \<le> n))"

text \<open>A consumer that keeps calling \<^verbatim>\<open>_dequeue\<close> on one slot: the world after \<open>j\<close> calls.\<close>

fun waiter :: "config \<Rightarrow> timestamps \<Rightarrow> string \<Rightarrow> string \<Rightarrow> nat \<Rightarrow> world \<Rightarrow> world option" where
  "waiter cfg tm operation channel 0 w = Some w"
| "waiter cfg tm operation channel (Suc j) w =
     (case waiter cfg tm operation channel j w of
        None \<Rightarrow> None
      | Some w1 \<Rightarrow> map_option snd (dequeue cfg tm operation channel False w1))"

section \<open>Properties\<close>

subsection \<open>The Redis commands\<close>

lemma map_of_fold_update:
  "map_of (fold (\<lambda>(f, v). AList.update f v) m h) = map_of h ++ map_of (rev m)"
  by (induction m arbitrary: h) (auto simp: AList.update_conv' fun_eq_iff map_add_def split: option.splits)

lemma lookup_hmset:
  "lookup (snd (hmset ks key m)) k =
     (if k = key then Some ((entry_of ks key)\<lparr>hash := fold (\<lambda>(f, v). AList.update f v) m (hash (entry_of ks key))\<rparr>)
      else lookup ks k)"
  by (auto simp: hmset_def lookup_def entry_of_def expired_def Let_def AList.update_conv' split: option.splits)

lemma fst_hmset: "fst (hmset ks key m) = True"
  by (simp add: hmset_def Let_def)

lemma hget_hmset:
  "hget (snd (hmset ks key m)) k f =
     (if k = key then (case map_of (rev m) f of Some v \<Rightarrow> Some v | None \<Rightarrow> hget ks key f)
      else hget ks k f)"
  by (auto simp: hget_def lookup_hmset map_of_fold_update entry_of_def map_add_def split: option.splits)

lemma ttl_of_hmset:
  "ttl_of (snd (hmset ks key m)) k = ttl_of ks k"
  by (auto simp: ttl_of_def lookup_hmset entry_of_def split: option.splits)

lemma delete_empty_map_of: "AList.delete f h = [] \<Longrightarrow> g \<noteq> f \<Longrightarrow> map_of h g = None"
  by (metis AList.delete_conv' fun_upd_other map_of.simps(1))

lemma fst_hdel: "fst (hdel ks key f) = (if hget ks key f = None then 0 else 1)"
  by (auto simp: hdel_def hget_def Let_def split: option.splits)

lemma lookup_hdel:
  "lookup (snd (hdel ks key f)) k =
     (if k = key then
        (case lookup ks key of None \<Rightarrow> None
         | Some e \<Rightarrow> if map_of (hash e) f = None then Some e
                     else if AList.delete f (hash e) = [] then None
                     else Some (e\<lparr>hash := AList.delete f (hash e)\<rparr>))
      else lookup ks k)"
  by (auto simp: hdel_def lookup_def expired_def Let_def AList.update_conv' AList.delete_conv' split: option.splits)

lemma hget_hdel:
  "hget (snd (hdel ks key f)) k g = (if k = key \<and> g = f then None else hget ks k g)"
  by (auto simp: hget_def lookup_hdel AList.delete_conv' delete_empty_map_of split: option.splits)

lemma hdel_absent: "hget ks key f = None \<Longrightarrow> hdel ks key f = (0, ks)"
  by (auto simp: hdel_def hget_def split: option.splits)

lemma fst_expire_key: "fst (expire_key ks key secs) = (if lookup ks key = None then 0 else 1)"
  by (auto simp: expire_key_def split: option.splits)

lemma lookup_expire_key:
  "0 < secs \<Longrightarrow> lookup (snd (expire_key ks key secs)) k =
     (if k = key then map_option (\<lambda>e. e\<lparr>ttl := Some secs\<rparr>) (lookup ks key) else lookup ks k)"
  by (auto simp: expire_key_def lookup_def expired_def AList.update_conv' split: option.splits)

lemma hget_expire_key: "0 < secs \<Longrightarrow> hget (snd (expire_key ks key secs)) k f = hget ks k f"
  by (auto simp: hget_def lookup_expire_key split: option.splits)

lemma lookup_elapse:
  assumes "0 \<le> d"
  shows "lookup (elapse d ks) k =
     (case lookup ks k of None \<Rightarrow> None
      | Some e \<Rightarrow> (case ttl e of None \<Rightarrow> Some e
                   | Some t \<Rightarrow> if t \<le> d then None else Some (e\<lparr>ttl := Some (t - d)\<rparr>)))"
proof -
  have "map_of (elapse d ks) k = map_option (\<lambda>e. e\<lparr>ttl := map_option (\<lambda>t. t - d) (ttl e)\<rparr>) (map_of ks k)"
    unfolding elapse_def by (induction ks) auto
  then show ?thesis using assms
    by (cases "map_of ks k") (auto simp: lookup_def expired_def split: option.splits)
qed

subsection \<open>The helpers\<close>

lemma meanwhile_quiet: "others w = [] \<Longrightarrow> meanwhile w = w"
  by (simp add: meanwhile_def)

lemma set_key_value_eq:
  "set_key_value key m w =
     (Returns (), (meanwhile w)\<lparr>keyspace := snd (hmset (keyspace (meanwhile w)) key m)\<rparr>)"
  by (simp add: set_key_value_def Let_def split_beta fst_hmset)

lemma del_message_permissive:
  "del_message key True w =
     (Returns (), (meanwhile w)\<lparr>keyspace := snd (hdel (keyspace (meanwhile w)) key MESSAGE)\<rparr>)"
  by (simp add: del_message_def Let_def split_beta)

lemma del_message_strict:
  "del_message key False w =
     (if hget (keyspace (meanwhile w)) key MESSAGE = None then (Raises (FailedDeleting key), meanwhile w)
      else (Returns (), (meanwhile w)\<lparr>keyspace := snd (hdel (keyspace (meanwhile w)) key MESSAGE)\<rparr>))"
  by (simp add: del_message_def Let_def split_beta fst_hdel hdel_absent)

lemma expire_key_absent: "lookup ks key = None \<Longrightarrow> expire_key ks key secs = (0, ks)"
  by (simp add: expire_key_def)

lemma expire_eq:
  "expire key w =
     (if lookup (keyspace (meanwhile w)) key = None then (Raises (FailedExpiring key), meanwhile w)
      else (Returns (), (meanwhile w)\<lparr>keyspace := snd (expire_key (keyspace (meanwhile w)) key EXPIRE_SECS)\<rparr>))"
  by (simp add: expire_def Let_def split_beta fst_expire_key expire_key_absent)

lemma redis_hget_eq:
  "redis_hget key f w = (Returns (hget (keyspace (meanwhile w)) key f), meanwhile w)"
  by (simp add: redis_hget_def Let_def)

lemma hgetall_no_message:
  "(length (hgetall ks key) = 0 \<or> MESSAGE \<notin> set (map fst (hgetall ks key))) \<longleftrightarrow> hget ks key MESSAGE = None"
  by (auto simp: hgetall_def hget_def map_of_eq_None_iff split: option.splits)

lemma enqueue_occupied:
  "hget (keyspace (meanwhile w)) (channel @ '':'' @ operation) MESSAGE \<noteq> None \<Longrightarrow>
   enqueue tm operation channel msg w = (Raises (Unprocessed (channel @ '':'' @ operation)), meanwhile w)"
  unfolding enqueue_def Let_def using hgetall_no_message by auto

lemma digit_char_in: "digit_char d \<in> set ''0123456789''"
  unfolding digit_char_def by (rule nth_mem) simp

lemma digits_of_ne: "digits_of n \<noteq> []"
  by (subst digits_of.simps) simp

lemma last_digits_of: "last (digits_of n) = digit_char (n mod 10)"
  by (subst digits_of.simps) simp

lemma last_strftime_stat: "last (strftime_stat tm) = digit_char (mday tm mod 10)"
  by (simp add: strftime_stat_def pad2_def digits_of_ne last_digits_of)

lemma stat_key_not_slot:
  "operation = REQUEST \<or> operation = REPLY \<Longrightarrow> strftime_stat tm \<noteq> channel @ '':'' @ operation"
proof
  assume op: "operation = REQUEST \<or> operation = REPLY"
  assume eq: "strftime_stat tm = channel @ '':'' @ operation"
  have "last (channel @ '':'' @ operation) \<in> {CHR ''t'', CHR ''y''}"
    using op by (auto simp: key_names)
  moreover have "last (strftime_stat tm) \<in> set ''0123456789''"
    by (simp only: last_strftime_stat digit_char_in)
  ultimately show False using eq by auto
qed

subsection \<open>Integers as text\<close>

lemma digit_val_digit_char: "d < 10 \<Longrightarrow> digit_val (digit_char d) = Some d"
proof -
  assume "d < 10"
  then have "d \<in> {0, 1, 2, 3, 4, 5, 6, 7, 8, 9}" by auto
  then show ?thesis by (auto simp: digit_char_def digit_val_def Let_def)
qed

lemma set_digits_of: "set (digits_of n) \<subseteq> set ''0123456789''"
proof (induction n rule: digits_of.induct)
  case (1 n)
  show ?case
  proof (cases "n < 10")
    case True
    then show ?thesis using digit_char_in [of n] by (subst digits_of.simps) simp
  next
    case False
    then show ?thesis using 1 digit_char_in [of "n mod 10"] by (subst digits_of.simps) simp
  qed
qed

lemma read_digits_digits_of:
  "read_digits b acc (digits_of n @ cs) = read_digits True (acc * 10 ^ length (digits_of n) + n) cs"
proof (induction n arbitrary: b acc cs rule: digits_of.induct)
  case (1 n)
  show ?case
  proof (cases "n < 10")
    case True
    then show ?thesis
      by (subst (1 2) digits_of.simps) (simp add: digit_val_digit_char mult.commute)
  next
    case False
    have d: "digit_val (digit_char (n mod 10)) = Some (n mod 10)"
      by (simp add: digit_val_digit_char)
    have "read_digits b acc (digits_of n @ cs) =
            read_digits b acc (digits_of (n div 10) @ digit_char (n mod 10) # cs)"
      using False by (subst digits_of.simps) simp
    also have "\<dots> = read_digits True (acc * 10 ^ length (digits_of (n div 10)) + n div 10)
                       (digit_char (n mod 10) # cs)"
      using 1 [OF False] by simp
    also have "\<dots> = read_digits True (10 * (acc * 10 ^ length (digits_of (n div 10)) + n div 10) + n mod 10) cs"
      by (simp add: d)
    also have "10 * (acc * 10 ^ length (digits_of (n div 10)) + n div 10) + n mod 10
                 = acc * 10 ^ length (digits_of n) + n"
      using False by (subst (2) digits_of.simps) (simp add: algebra_simps)
    finally show ?thesis .
  qed
qed

lemma read_digits_of: "read_digits b 0 (digits_of n) = Some n"
  using read_digits_digits_of [of b 0 n "[]"] by simp

lemma not_space_digit: "c \<in> set ''0123456789'' \<Longrightarrow> \<not> py_space c"
  by (auto simp: py_space_def)

lemma hd_digits_of: "hd (digits_of n) \<in> set ''0123456789''"
  using set_digits_of [of n] digits_of_ne [of n] by (cases "digits_of n") auto

lemma last_digits_in: "last (digits_of n) \<in> set ''0123456789''"
  by (simp only: last_digits_of digit_char_in)

lemma strip_str_int:
  "rev (dropWhile py_space (rev (dropWhile py_space (str_int i)))) = str_int i"
proof -
  have ne: "str_int i \<noteq> []" by (simp add: str_int_def digits_of_ne)
  have h: "\<not> py_space (hd (str_int i))"
    using hd_digits_of [of "nat i"] by (auto simp: str_int_def py_space_def dest: not_space_digit)
  have l: "\<not> py_space (last (str_int i))"
    using last_digits_in not_space_digit by (auto simp: str_int_def digits_of_ne)
  have 1: "dropWhile py_space (str_int i) = str_int i"
    using ne h by (cases "str_int i") auto
  have 2: "dropWhile py_space (rev (str_int i)) = rev (str_int i)"
    using ne l by (cases "rev (str_int i)") (auto simp: last_rev hd_rev)
  show ?thesis by (simp add: 1 2)
qed

lemma py_int_str_int: "py_int (str_int i) = Some i"
proof (cases "i < 0")
  case True
  then show ?thesis
    unfolding py_int_def strip_str_int Let_def
    by (simp add: str_int_def read_digits_of)
next
  case False
  obtain c cs where d: "digits_of (nat i) = c # cs"
    using digits_of_ne [of "nat i"] by (cases "digits_of (nat i)") auto
  have "c \<in> set ''0123456789''" using hd_digits_of [of "nat i"] d by simp
  then have c: "c \<noteq> CHR ''-''" "c \<noteq> CHR ''+''" by auto
  have "read_digits False 0 (c # cs) = Some (nat i)"
    using read_digits_of [of False "nat i"] d by simp
  then show ?thesis
    unfolding py_int_def strip_str_int Let_def
    using False c d by (simp add: str_int_def)
qed

lemma redis_ll_str_int: "- (2 ^ 63) \<le> v \<Longrightarrow> v < 2 ^ 63 \<Longrightarrow> redis_ll (str_int v) = Some v"
  by (simp add: redis_ll_def py_int_str_int)

lemma redis_ll_Some: "redis_ll b = Some v \<Longrightarrow> b = str_int v \<and> - (2 ^ 63) \<le> v \<and> v < 2 ^ 63"
  by (auto simp: redis_ll_def split: option.splits if_splits)

subsection \<open>\<^verbatim>\<open>_enqueue\<close>\<close>

lemma hincrby_SomeD:
  "hincrby ks key f n = Some (v, ks') \<Longrightarrow>
     ks' = snd (hmset ks key [(f, str_int v)]) \<and> hash_int ks key f = Some (v - n)
     \<and> - (2 ^ 63) \<le> v \<and> v < 2 ^ 63"
  by (auto simp: hincrby_def split: option.splits if_splits)

lemma hash_int_hmset_str:
  "- (2 ^ 63) \<le> v \<Longrightarrow> v < 2 ^ 63 \<Longrightarrow>
   hash_int (snd (hmset ks key [(f, str_int v)])) k g =
     (if k = key \<and> g = f then Some v else hash_int ks k g)"
  by (simp add: hash_int_def hget_hmset redis_ll_str_int)

lemma EXPIRE_SECS_pos: "0 < EXPIRE_SECS"
  by (simp add: EXPIRE_SECS_def)

lemma enqueue_quiet:
  assumes "others w = []"
  shows "enqueue tm operation channel msg w =
     (let key = channel @ '':'' @ operation; sk = strftime_stat tm
      in if hget (keyspace w) key MESSAGE \<noteq> None then (Raises (Unprocessed key), w)
         else (case hincrby (enqueued tm key msg (keyspace w)) sk (COUNT @ '':'' @ operation) 1 of
                 None \<Rightarrow> (Raises ResponseError, w\<lparr>keyspace := enqueued tm key msg (keyspace w)\<rparr>)
               | Some (v, ks2) \<Rightarrow>
                   (case hincrby ks2 sk operation (int (length msg)) of
                      None \<Rightarrow> (Raises ResponseError, w\<lparr>keyspace := ks2\<rparr>)
                    | Some (v', ks3) \<Rightarrow> (Returns (), w\<lparr>keyspace := ks3\<rparr>))))"
proof (cases "hget (keyspace w) (channel @ '':'' @ operation) MESSAGE = None")
  case False
  then show ?thesis
    using enqueue_occupied [of w channel operation tm msg] assms
    by (simp add: meanwhile_quiet Let_def)
next
  case True
  show ?thesis
    using True assms hgetall_no_message [of "keyspace w" "channel @ '':'' @ operation"]
    unfolding enqueue_def Let_def
    by (simp add: meanwhile_quiet seq_def set_key_value_eq expire_eq lookup_hmset update_stats_def
          redis_hincrby_def return_def enqueued_def Let_def split: option.splits)
qed


lemma hget_enqueued:
  "hget (enqueued tm key msg ks) k f =
     (if k = key then
        (if f = MESSAGE then Some msg else if f = PICKUP_TIME then Some []
         else if f = POSTED_TIME then Some (asctime tm) else hget ks key f)
      else hget ks k f)"
  by (simp add: enqueued_def hget_expire_key EXPIRE_SECS_pos hget_hmset field_names)

lemma lookup_enqueued_other: "k \<noteq> key \<Longrightarrow> lookup (enqueued tm key msg ks) k = lookup ks k"
  by (simp add: enqueued_def lookup_expire_key EXPIRE_SECS_pos lookup_hmset)

lemma ttl_of_enqueued:
  "ttl_of (enqueued tm key msg ks) k = (if k = key then Some EXPIRE_SECS else ttl_of ks k)"
  by (simp add: enqueued_def ttl_of_def lookup_expire_key EXPIRE_SECS_pos lookup_hmset)

lemma enqueue_returns:
  assumes "others w = []" and "enqueue tm operation channel msg w = (Returns (), w')"
  obtains v ks2 v' where
    "hget (keyspace w) (channel @ '':'' @ operation) MESSAGE = None"
    "hincrby (enqueued tm (channel @ '':'' @ operation) msg (keyspace w)) (strftime_stat tm)
       (COUNT @ '':'' @ operation) 1 = Some (v, ks2)"
    "hincrby ks2 (strftime_stat tm) operation (int (length msg)) = Some (v', keyspace w')"
    "others w' = []" "naps w' = naps w"
  using assms(2) unfolding enqueue_quiet [OF assms(1)] Let_def
  by (auto split: if_splits option.splits simp: assms(1))

lemma enqueue_keeps_message:
  assumes "others w = []" and "operation = REQUEST \<or> operation = REPLY"
    and "enqueue tm operation channel msg w = (Returns (), w')"
  shows "hget (keyspace w') (channel @ '':'' @ operation) MESSAGE = Some msg"
proof -
  from assms(1,3) obtain v ks2 v' where
    1: "hincrby (enqueued tm (channel @ '':'' @ operation) msg (keyspace w)) (strftime_stat tm)
       (COUNT @ '':'' @ operation) 1 = Some (v, ks2)"
    and 2: "hincrby ks2 (strftime_stat tm) operation (int (length msg)) = Some (v', keyspace w')"
    by (rule enqueue_returns)
  have ne: "channel @ '':'' @ operation \<noteq> strftime_stat tm"
    using stat_key_not_slot [OF assms(2), of tm channel] by simp
  show ?thesis
    using hincrby_SomeD [OF 1] hincrby_SomeD [OF 2] ne
    by (simp add: hget_hmset hget_enqueued)
qed

lemma caught_Raises: "caught (Raises e, w) = (plain HTTP_SYS_ERR (Exception_message e), w)"
  by (simp add: caught_def)

lemma queue_reply_eq:
  assumes "map_of (args req) ''channel'' = Some channel"
    and "req_content_type req = Some ct" and "startswith ct ''text/plain''"
  shows "queue_reply tm req w =
     (case enqueue tm REPLY channel (data req) w of
        (Returns u, w1) \<Rightarrow> (plain HTTP_OK (Content []), w1)
      | (Raises e, w1) \<Rightarrow> (plain HTTP_SYS_ERR (Exception_message e), w1))"
  using assms
  by (auto simp: queue_reply_def caught_def seq_def return_def Let_def split: prod.splits outcome.splits)

text \<open>
  C4. When the slot's \<open>message\<close> field is present at the moment \<^verbatim>\<open>_enqueue\<close> reads the
  slot, \<^verbatim>\<open>_enqueue\<close> raises \<^verbatim>\<open>Channel <key> contains unprocessed message\<close> and the world
  it leaves is the one it found (what other clients did meanwhile, nothing of its own):
  no field of the slot and no counter of the day has changed. \<^verbatim>\<open>queue_reply\<close> answers 500
  with that message. In particular, after a \<^verbatim>\<open>queue_reply\<close> that was accepted with 200, a
  second one on the same channel answers 500 and leaves the first reply where it is.
\<close>

theorem slot_occupied_atomic:
  "(hget (keyspace (meanwhile w)) (channel @ '':'' @ operation) MESSAGE \<noteq> None \<longrightarrow>
      enqueue tm operation channel msg w
        = (Raises (Unprocessed (channel @ '':'' @ operation)), meanwhile w)
      \<and> (operation = REPLY \<and> map_of (args req) ''channel'' = Some channel
           \<and> req_content_type req = Some ct \<and> startswith ct ''text/plain'' \<longrightarrow>
         queue_reply tm req w
           = (plain HTTP_SYS_ERR (Exception_message (Unprocessed (channel @ '':'' @ REPLY))),
              meanwhile w)))
   \<and> (others w = [] \<and> map_of (args first) ''channel'' = Some channel
        \<and> queue_reply tm first w = (r, w') \<and> status r = HTTP_OK
        \<and> map_of (args second) ''channel'' = Some channel
        \<and> req_content_type second = Some ct \<and> startswith ct ''text/plain'' \<longrightarrow>
      queue_reply tm' second w'
        = (plain HTTP_SYS_ERR (Exception_message (Unprocessed (channel @ '':'' @ REPLY))), w')
      \<and> hget (keyspace w') (channel @ '':'' @ REPLY) MESSAGE = Some (data first))"
proof (intro conjI impI)
  assume occ: "hget (keyspace (meanwhile w)) (channel @ '':'' @ operation) MESSAGE \<noteq> None"
  show e: "enqueue tm operation channel msg w
        = (Raises (Unprocessed (channel @ '':'' @ operation)), meanwhile w)"
    using occ by (rule enqueue_occupied)
  assume h: "operation = REPLY \<and> map_of (args req) ''channel'' = Some channel
           \<and> req_content_type req = Some ct \<and> startswith ct ''text/plain''"
  then show "queue_reply tm req w
           = (plain HTTP_SYS_ERR (Exception_message (Unprocessed (channel @ '':'' @ REPLY))),
              meanwhile w)"
    using enqueue_occupied [of w channel REPLY tm "data req"] occ
    by (simp add: queue_reply_eq [of req channel ct])
next
  assume h: "others w = [] \<and> map_of (args first) ''channel'' = Some channel
        \<and> queue_reply tm first w = (r, w') \<and> status r = HTTP_OK
        \<and> map_of (args second) ''channel'' = Some channel
        \<and> req_content_type second = Some ct \<and> startswith ct ''text/plain''"
  have ok: "enqueue tm REPLY channel (data first) w = (Returns (), w')"
    using h
    by (auto simp: queue_reply_def caught_def seq_def return_def Let_def plain_def HTTP_OK_def
          HTTP_SYS_ERR_def split: option.splits if_splits prod.splits outcome.splits)
  have q: "others w = []" using h by simp
  have m: "hget (keyspace w') (channel @ '':'' @ REPLY) MESSAGE = Some (data first)"
    using enqueue_keeps_message [OF q _ ok] by simp
  have q1: "others w' = []"
    using enqueue_returns [OF q ok] by blast
  show "queue_reply tm' second w'
        = (plain HTTP_SYS_ERR (Exception_message (Unprocessed (channel @ '':'' @ REPLY))), w')"
    using enqueue_occupied [of w' channel REPLY tm' "data second"] m q1 h
    by (simp add: queue_reply_eq [of second channel ct] meanwhile_quiet)
  show "hget (keyspace w') (channel @ '':'' @ REPLY) MESSAGE = Some (data first)" by (rule m)
qed

theorem slot_occupied_atomic_witness:
  "hget (keyspace (meanwhile (alone (holding ''c5:reply'' ''A'')))) (''c5'' @ '':'' @ REPLY) MESSAGE \<noteq> None
   \<and> enqueue clock0 REPLY ''c5'' ''B'' (alone (holding ''c5:reply'' ''A''))
       = (Raises (Unprocessed (''c5'' @ '':'' @ REPLY)), meanwhile (alone (holding ''c5:reply'' ''A'')))
   \<and> queue_reply clock0 (http ''c5'' ''text/plain'' ''B'') (alone (holding ''c5:reply'' ''A''))
       = (plain HTTP_SYS_ERR (Exception_message (Unprocessed (''c5'' @ '':'' @ REPLY))),
          meanwhile (alone (holding ''c5:reply'' ''A'')))
   \<and> meanwhile (alone (holding ''c5:reply'' ''A'')) = alone (holding ''c5:reply'' ''A'')
   \<and> status (fst (queue_reply clock0 (http ''c5'' ''text/plain'' ''A'') (alone []))) = HTTP_OK
   \<and> queue_reply clock0 (http ''c5'' ''text/plain'' ''B'')
         (snd (queue_reply clock0 (http ''c5'' ''text/plain'' ''A'') (alone [])))
       = (plain HTTP_SYS_ERR (Exception_message (Unprocessed (''c5'' @ '':'' @ REPLY))),
          snd (queue_reply clock0 (http ''c5'' ''text/plain'' ''A'') (alone [])))
   \<and> hget (keyspace (snd (queue_reply clock0 (http ''c5'' ''text/plain'' ''A'') (alone []))))
         (''c5'' @ '':'' @ REPLY) MESSAGE = Some ''A''"
proof -
  have h1: "hget (keyspace (meanwhile (alone (holding ''c5:reply'' ''A'')))) (''c5'' @ '':'' @ REPLY) MESSAGE \<noteq> None"
    by code_simp
  have h2: "map_of (args (http ''c5'' ''text/plain'' ''B'')) ''channel'' = Some ''c5''"
    "req_content_type (http ''c5'' ''text/plain'' ''B'') = Some ''text/plain''"
    "startswith ''text/plain'' ''text/plain''"
    "map_of (args (http ''c5'' ''text/plain'' ''A'')) ''channel'' = Some ''c5''"
    "data (http ''c5'' ''text/plain'' ''A'') = ''A''"
    by (simp_all add: http_def startswith_def)
  have h3: "status (fst (queue_reply clock0 (http ''c5'' ''text/plain'' ''A'') (alone []))) = HTTP_OK"
    by code_simp
  have h4: "others (alone []) = []" "meanwhile (alone (holding ''c5:reply'' ''A'')) = alone (holding ''c5:reply'' ''A'')"
    by (simp_all add: alone_def meanwhile_def)
  show ?thesis
    using h1 h2 h3 h4
      slot_occupied_atomic [where w = "alone (holding ''c5:reply'' ''A'')" and channel = "''c5''"
        and operation = REPLY and tm = clock0 and msg = "''B''"
        and req = "http ''c5'' ''text/plain'' ''B''" and ct = "''text/plain''"]
      slot_occupied_atomic [where w = "alone []" and channel = "''c5''"
        and first = "http ''c5'' ''text/plain'' ''A''" and tm = clock0
        and r = "fst (queue_reply clock0 (http ''c5'' ''text/plain'' ''A'') (alone []))"
        and w' = "snd (queue_reply clock0 (http ''c5'' ''text/plain'' ''A'') (alone []))"
        and second = "http ''c5'' ''text/plain'' ''B''" and ct = "''text/plain''" and tm' = clock0]
    by simp
qed

subsection \<open>\<^verbatim>\<open>_dequeue\<close>: the interlock and the loop\<close>

lemma dequeue_try_busy:
  "hget (keyspace (meanwhile w)) key DEQUEUE_BUSY = Some DEQUEUE_BUSY_STATUS \<Longrightarrow>
   dequeue_try cfg tm key reset_first w = Some (Returns None, False, meanwhile w)"
  by (simp add: dequeue_try_def Let_def status_names)

lemma dequeue_try_flag:
  "dequeue_try cfg tm key reset_first w = Some (r, valid_reader, w1) \<Longrightarrow>
   \<not> valid_reader \<Longrightarrow>
   r = Returns None \<and> w1 = meanwhile w
     \<and> hget (keyspace (meanwhile w)) key DEQUEUE_BUSY = Some DEQUEUE_BUSY_STATUS"
  by (auto simp: dequeue_try_def Let_def status_names split: option.splits if_splits)

lemma dequeue_busy:
  "hget (keyspace (meanwhile w)) (channel @ '':'' @ operation) DEQUEUE_BUSY = Some DEQUEUE_BUSY_STATUS \<Longrightarrow>
   dequeue cfg tm operation channel reset_first w = Some (Returns (None, False), meanwhile w)"
  by (simp add: dequeue_def Let_def dequeue_try_busy)

lemma dequeue_released:
  assumes "dequeue cfg tm operation channel reset_first w = Some (out, w')"
    and "\<forall>m. out \<noteq> Returns (m, False)"
  shows "hget (keyspace w') (channel @ '':'' @ operation) DEQUEUE_BUSY = Some DEQUEUE_IDLE_STATUS"
proof -
  obtain r valid_reader w1 where
    t: "dequeue_try cfg tm (channel @ '':'' @ operation) reset_first w = Some (r, valid_reader, w1)"
    using assms(1) by (auto simp: dequeue_def Let_def split: option.splits)
  show ?thesis
  proof (cases valid_reader)
    case True
    then show ?thesis
      using assms(1) t
      by (auto simp: dequeue_def Let_def set_key_value_eq hget_hmset field_names
            split: outcome.splits)
  next
    case False
    then have "out = Returns (None, False)"
      using assms(1) t dequeue_try_flag [OF t]
      by (auto simp: dequeue_def Let_def split: outcome.splits)
    then show ?thesis using assms(2) by simp
  qed
qed

lemma poll_negative:
  "secs < 0 \<Longrightarrow> poll key secs m left w =
     (if m = None \<and> 0 < left then Some (Raises ValueError, w) else Some (Returns m, w))"
  by (subst poll.simps) (simp add: sleep_def)

lemma poll_total:
  assumes "secs \<noteq> 0"
  shows "\<exists>r. poll key secs m left w = Some r"
proof (cases "secs < 0")
  case True
  then show ?thesis by (simp add: poll_negative)
next
  case False
  then have pos: "0 < secs" using assms by simp
  show ?thesis
  proof (induction "nat \<lceil>left / secs\<rceil>" arbitrary: left m w rule: less_induct)
    case less
    show ?case
    proof (cases "m = None \<and> 0 < left")
      case False
      then show ?thesis by (subst poll.simps) auto
    next
      case True
      have "\<lceil>(left - secs) / secs\<rceil> = \<lceil>left / secs\<rceil> - 1"
        using pos by (simp add: diff_divide_distrib)
      moreover have "0 < \<lceil>left / secs\<rceil>"
        using True pos by (simp add: ceiling_less_iff)
      ultimately have "nat \<lceil>(left - secs) / secs\<rceil> < nat \<lceil>left / secs\<rceil>"
        by simp
      from less [OF this] show ?thesis
        using True pos by (subst poll.simps) (simp add: sleep_def)
    qed
  qed
qed

lemma seq_Returns: "m w = (Returns a, w1) \<Longrightarrow> seq m f w = f a w1"
  by (simp add: seq_def)

lemma seq_Raises: "m w = (Raises e, w1) \<Longrightarrow> seq m f w = (Raises e, w1)"
  by (simp add: seq_def)

lemma seq_ReturnsD:
  "seq m f w = (Returns b, w2) \<Longrightarrow> \<exists>a w1. m w = (Returns a, w1) \<and> f a w1 = (Returns b, w2)"
  by (auto simp: seq_def split: prod.splits outcome.splits)

lemma cadence_interval:
  "cadence cfg key w = (Returns (n, secs), w1) \<Longrightarrow>
   secs = FAST_DEQUEUE_POLLING_SECS cfg \<or> secs = SLOW_DEQUEUE_POLLING_SECS cfg"
  by (auto simp: cadence_def seq_def redis_hget_eq set_key_value_eq return_def raise_def
        split: option.splits if_splits)

lemma seq_ReturnsE:
  assumes "seq m f w = (Returns b, w2)"
  obtains a w1 where "m w = (Returns a, w1)" and "f a w1 = (Returns b, w2)"
  using assms by (auto simp: seq_def split: prod.splits outcome.splits)

lemma prepare_interval:
  assumes "prepare cfg key reset_first w = (Returns (secs, message), w1)"
  shows "secs = FAST_DEQUEUE_POLLING_SECS cfg \<or> secs = SLOW_DEQUEUE_POLLING_SECS cfg"
proof -
  from assms obtain p wa wb where c: "cadence cfg key wa = (Returns p, wb)"
    and r: "(case p of (fast_polls_left, dequeue_polling_secs) \<Rightarrow>
               seq (redis_hget key MESSAGE) (\<lambda>message. return (dequeue_polling_secs, message))) wb
              = (Returns (secs, message), w1)"
    unfolding prepare_def by (elim seq_ReturnsE) blast
  obtain n secs' where p: "p = (n, secs')" by (cases p)
  from r have "secs = secs'"
    by (simp add: p seq_def redis_hget_eq return_def)
  then show ?thesis using cadence_interval [of cfg key wa n secs' wb] c p by simp
qed

lemma dequeue_wait_total:
  assumes "FAST_DEQUEUE_POLLING_SECS cfg \<noteq> 0" and "SLOW_DEQUEUE_POLLING_SECS cfg \<noteq> 0"
  shows "\<exists>r. dequeue_wait cfg tm key reset_first w = Some r"
proof (cases "prepare cfg key reset_first w")
  case (Pair r w1)
  show ?thesis
  proof (cases r)
    case (Raises e)
    then show ?thesis using Pair by (simp add: dequeue_wait_def)
  next
    case (Returns p)
    obtain secs message where p: "p = (secs, message)" by (cases p)
    have "secs \<noteq> 0"
      using prepare_interval [of cfg key reset_first w secs message w1] Pair Returns p assms by auto
    then obtain q where q: "poll key secs message (DEQUEUE_TIMEOUT_SECS cfg) w1 = Some q"
      using poll_total by blast
    obtain o2 w2 where q2: "q = (o2, w2)" by (cases q)
    show ?thesis
      using Pair Returns p q q2
      by (cases o2) (simp_all add: dequeue_wait_def)
  qed
qed

lemma dequeue_total:
  assumes "FAST_DEQUEUE_POLLING_SECS cfg \<noteq> 0" and "SLOW_DEQUEUE_POLLING_SECS cfg \<noteq> 0"
  shows "\<exists>r. dequeue cfg tm operation channel reset_first w = Some r"
proof -
  obtain r where r: "dequeue_wait cfg tm (channel @ '':'' @ operation) reset_first (meanwhile w) = Some r"
    using dequeue_wait_total [OF assms] by blast
  obtain o1 w1 where r1: "r = (o1, w1)" by (cases r)
  have t: "\<exists>r' v w'. dequeue_try cfg tm (channel @ '':'' @ operation) reset_first w = Some (r', v, w')"
    using r r1 by (auto simp: dequeue_try_def Let_def)
  then obtain r' v w' where t': "dequeue_try cfg tm (channel @ '':'' @ operation) reset_first w = Some (r', v, w')"
    by blast
  show ?thesis
    unfolding dequeue_def Let_def t'
    by (cases r'; cases v) (simp_all add: set_key_value_eq)
qed

subsection \<open>\<^verbatim>\<open>_dequeue\<close>: the single reader\<close>

text \<open>
  C2. When the slot's \<open>dequeue_busy\<close> field holds \<open>busy\<close> at the moment \<^verbatim>\<open>_dequeue\<close> reads
  it, \<^verbatim>\<open>_dequeue\<close> returns \<^verbatim>\<open>(None, False)\<close> at once and the world it leaves is the one
  it found: no field is written, \<open>dequeue_busy\<close> is still \<open>busy\<close>. The handlers answer 429
  with an empty body. A missing field counts as idle: then no result of the call has
  \<^verbatim>\<open>valid_reader\<close> false.
\<close>

theorem redundant_reader_rejected:
  "(hget (keyspace (meanwhile w)) (channel @ '':'' @ operation) DEQUEUE_BUSY
      = Some DEQUEUE_BUSY_STATUS \<longrightarrow>
      dequeue cfg tm operation channel reset_first w = Some (Returns (None, False), meanwhile w)
      \<and> hget (keyspace (meanwhile w)) (channel @ '':'' @ operation) DEQUEUE_BUSY
          = Some DEQUEUE_BUSY_STATUS
      \<and> (map_of (args req) ''channel'' = Some channel \<longrightarrow>
           dequeue_handler cfg tm operation req w
             = Some (plain HTTP_TOO_MANY (Content []), meanwhile w)
           \<and> (operation = REQUEST \<longrightarrow>
                dequeue_request cfg tm req w
                  = Some (plain HTTP_TOO_MANY (Content []), meanwhile w))
           \<and> (operation = REPLY \<longrightarrow>
                dequeue_reply cfg tm req w
                  = Some (plain HTTP_TOO_MANY (Content []), meanwhile w))))
   \<and> (hget (keyspace (meanwhile w)) (channel @ '':'' @ operation) DEQUEUE_BUSY = None \<longrightarrow>
        (\<forall>m w'. dequeue cfg tm operation channel reset_first w \<noteq> Some (Returns (m, False), w')))"
proof (intro conjI impI allI)
  assume b: "hget (keyspace (meanwhile w)) (channel @ '':'' @ operation) DEQUEUE_BUSY
      = Some DEQUEUE_BUSY_STATUS"
  show "dequeue cfg tm operation channel reset_first w = Some (Returns (None, False), meanwhile w)"
    using b by (rule dequeue_busy)
  show "hget (keyspace (meanwhile w)) (channel @ '':'' @ operation) DEQUEUE_BUSY
          = Some DEQUEUE_BUSY_STATUS"
    by (rule b)
  assume c: "map_of (args req) ''channel'' = Some channel"
  show h: "dequeue_handler cfg tm operation req w
             = Some (plain HTTP_TOO_MANY (Content []), meanwhile w)"
    using c dequeue_busy [OF b, of cfg tm] by (simp add: dequeue_handler_def)
  show "dequeue_request cfg tm req w = Some (plain HTTP_TOO_MANY (Content []), meanwhile w)"
    if "operation = REQUEST"
    using h that by (simp add: dequeue_request_def)
  show "dequeue_reply cfg tm req w = Some (plain HTTP_TOO_MANY (Content []), meanwhile w)"
    if "operation = REPLY"
    using h that by (simp add: dequeue_reply_def)
next
  fix m w'
  assume n: "hget (keyspace (meanwhile w)) (channel @ '':'' @ operation) DEQUEUE_BUSY = None"
  show "dequeue cfg tm operation channel reset_first w \<noteq> Some (Returns (m, False), w')"
  proof
    assume d: "dequeue cfg tm operation channel reset_first w = Some (Returns (m, False), w')"
    then obtain r w1 where
      "dequeue_try cfg tm (channel @ '':'' @ operation) reset_first w = Some (r, False, w1)"
      by (auto simp: dequeue_def Let_def split: option.splits prod.splits outcome.splits if_splits)
    from dequeue_try_flag [OF this] n show False by simp
  qed
qed

theorem redundant_reader_rejected_witness:
  "hget (keyspace (meanwhile (alone (waiting ''c3:request'')))) (''c3'' @ '':'' @ REQUEST) DEQUEUE_BUSY
      = Some DEQUEUE_BUSY_STATUS
   \<and> meanwhile (alone (waiting ''c3:request'')) = alone (waiting ''c3:request'')
   \<and> dequeue default_config clock0 REQUEST ''c3'' False (alone (waiting ''c3:request''))
       = Some (Returns (None, False), alone (waiting ''c3:request''))
   \<and> dequeue_request default_config clock0 (poll_request ''c3'') (alone (waiting ''c3:request''))
       = Some (plain HTTP_TOO_MANY (Content []), alone (waiting ''c3:request''))
   \<and> hget (keyspace (meanwhile (alone []))) (''c3'' @ '':'' @ REQUEST) DEQUEUE_BUSY = None
   \<and> (\<forall>m w'. dequeue default_config clock0 REQUEST ''c3'' False (alone [])
                 \<noteq> Some (Returns (m, False), w'))"
proof -
  have h1: "hget (keyspace (meanwhile (alone (waiting ''c3:request'')))) (''c3'' @ '':'' @ REQUEST) DEQUEUE_BUSY
      = Some DEQUEUE_BUSY_STATUS"
    by code_simp
  have h2: "meanwhile (alone (waiting ''c3:request'')) = alone (waiting ''c3:request'')"
    by (simp add: meanwhile_def alone_def)
  have h3: "map_of (args (poll_request ''c3'')) ''channel'' = Some ''c3''"
    by (simp add: poll_request_def)
  have h4: "hget (keyspace (meanwhile (alone []))) (''c3'' @ '':'' @ REQUEST) DEQUEUE_BUSY = None"
    by code_simp
  show ?thesis
    using h1 h2 h3 h4
      redundant_reader_rejected [where w = "alone (waiting ''c3:request'')" and channel = "''c3''"
        and operation = REQUEST and cfg = default_config and tm = clock0 and reset_first = False
        and req = "poll_request ''c3''"]
      redundant_reader_rejected [where w = "alone []" and channel = "''c3''"
        and operation = REQUEST and cfg = default_config and tm = clock0 and reset_first = False]
    by simp
qed

text \<open>
  C3. Every call of \<^verbatim>\<open>_dequeue\<close> that ends with \<^verbatim>\<open>valid_reader\<close> true (a message, a
  timeout, or an exception raised inside the \<^verbatim>\<open>try\<close> block) leaves \<open>dequeue_busy\<close> of
  its slot at \<open>idle\<close>, whatever the other clients did in between. The call does end when
  neither polling interval is 0.
\<close>

theorem interlock_released:
  "(FAST_DEQUEUE_POLLING_SECS cfg \<noteq> 0 \<and> SLOW_DEQUEUE_POLLING_SECS cfg \<noteq> 0 \<longrightarrow>
      (\<exists>r. dequeue cfg tm operation channel reset_first w = Some r))
   \<and> (dequeue cfg tm operation channel reset_first w = Some (out, w')
        \<and> (\<forall>m. out \<noteq> Returns (m, False)) \<longrightarrow>
      hget (keyspace w') (channel @ '':'' @ operation) DEQUEUE_BUSY = Some DEQUEUE_IDLE_STATUS)"
  using dequeue_total [of cfg tm operation channel reset_first w]
    dequeue_released [of cfg tm operation channel reset_first w out w']
  by blast

theorem interlock_released_witness:
  "FAST_DEQUEUE_POLLING_SECS default_config \<noteq> 0 \<and> SLOW_DEQUEUE_POLLING_SECS default_config \<noteq> 0
   \<and> FAST_DEQUEUE_POLLING_SECS impatient \<noteq> 0 \<and> SLOW_DEQUEUE_POLLING_SECS impatient \<noteq> 0
   \<and> (\<exists>w'. dequeue default_config clock0 REQUEST ''c1'' False (alone (holding ''c1:request'' ''{}''))
              = Some (Returns (Some ''{}'', True), w')
            \<and> hget (keyspace w') (''c1'' @ '':'' @ REQUEST) DEQUEUE_BUSY = Some DEQUEUE_IDLE_STATUS)
   \<and> (\<exists>w'. dequeue impatient clock0 REQUEST ''c1'' False (alone [])
              = Some (Returns (None, True), w')
            \<and> hget (keyspace w') (''c1'' @ '':'' @ REQUEST) DEQUEUE_BUSY = Some DEQUEUE_IDLE_STATUS)
   \<and> (\<exists>w'. dequeue default_config clock0 REQUEST ''c1'' False
                ((alone (holding ''c1:request'' ''{}''))\<lparr>others := thief ''c1:request''\<rparr>)
              = Some (Raises (FailedDeleting ''c1:request''), w')
            \<and> hget (keyspace w') (''c1'' @ '':'' @ REQUEST) DEQUEUE_BUSY = Some DEQUEUE_IDLE_STATUS)"
proof -
  have d: "FAST_DEQUEUE_POLLING_SECS default_config \<noteq> 0 \<and> SLOW_DEQUEUE_POLLING_SECS default_config \<noteq> 0"
    by (simp add: default_config_def)
  have i: "FAST_DEQUEUE_POLLING_SECS impatient \<noteq> 0 \<and> SLOW_DEQUEUE_POLLING_SECS impatient \<noteq> 0"
    by (simp add: impatient_def)
  have a: "\<exists>w'. dequeue cfg clock0 REQUEST ''c1'' False w = Some (out, w')
            \<and> hget (keyspace w') (''c1'' @ '':'' @ REQUEST) DEQUEUE_BUSY = Some DEQUEUE_IDLE_STATUS"
    if ne: "FAST_DEQUEUE_POLLING_SECS cfg \<noteq> 0 \<and> SLOW_DEQUEUE_POLLING_SECS cfg \<noteq> 0"
      and ev: "map_option fst (dequeue cfg clock0 REQUEST ''c1'' False w) = Some out"
      and vr: "\<forall>m. out \<noteq> Returns (m, False)"
    for cfg w out
  proof -
    from ne interlock_released [of cfg clock0 REQUEST "''c1''" False w]
    obtain r where r: "dequeue cfg clock0 REQUEST ''c1'' False w = Some r" by blast
    with ev have "dequeue cfg clock0 REQUEST ''c1'' False w = Some (out, snd r)"
      by (cases r) simp
    with vr interlock_released [of cfg clock0 REQUEST "''c1''" False w out "snd r"]
    show ?thesis by blast
  qed
  have e1: "map_option fst (dequeue default_config clock0 REQUEST ''c1'' False (alone (holding ''c1:request'' ''{}'')))
     = Some (Returns (Some ''{}'', True))"
    by code_simp
  have e2: "map_option fst (dequeue impatient clock0 REQUEST ''c1'' False (alone []))
     = Some (Returns (None, True))"
    by code_simp
  have e3: "map_option fst (dequeue default_config clock0 REQUEST ''c1'' False
        ((alone (holding ''c1:request'' ''{}''))\<lparr>others := thief ''c1:request''\<rparr>))
     = Some (Raises (FailedDeleting ''c1:request''))"
    by code_simp
  show ?thesis
    using d i a [OF d e1] a [OF i e2] a [OF d e3] by simp
qed

subsection \<open>\<^verbatim>\<open>_dequeue\<close>: the empty message\<close>

text \<open>
  C1, at the empty payload. \<^verbatim>\<open>queue_reply\<close> with an empty body is accepted and stores the
  empty message. The next \<^verbatim>\<open>_dequeue\<close> (interlock idle, no reset) returns it with
  \<^verbatim>\<open>valid_reader\<close> true and the handler answers 200, but \<^verbatim>\<open>if message:\<close> takes the empty
  byte string for no message: the \<open>message\<close> field is still there afterwards, so the next
  \<^verbatim>\<open>queue_reply\<close> on the channel is refused.
\<close>

theorem empty_payload_stays:
  "fst (queue_reply clock0 (http ''c'' ''text/plain'' []) (alone [])) = plain HTTP_OK (Content [])
   \<and> hget (keyspace (snd (queue_reply clock0 (http ''c'' ''text/plain'' []) (alone []))))
        (''c'' @ '':'' @ REPLY) MESSAGE = Some []
   \<and> (\<exists>w'. dequeue default_config clock0 REPLY ''c'' False
                (snd (queue_reply clock0 (http ''c'' ''text/plain'' []) (alone [])))
              = Some (Returns (Some [], True), w')
            \<and> hget (keyspace w') (''c'' @ '':'' @ REPLY) MESSAGE = Some []
            \<and> fst (queue_reply clock0 (http ''c'' ''text/plain'' ''next'') w')
                = plain HTTP_SYS_ERR (Exception_message (Unprocessed ''c:reply'')))
   \<and> map_option (status \<circ> fst)
        (dequeue_reply default_config clock0 (poll_request ''c'')
           (snd (queue_reply clock0 (http ''c'' ''text/plain'' []) (alone [])))) = Some HTTP_OK"
proof -
  have 1: "fst (queue_reply clock0 (http ''c'' ''text/plain'' []) (alone [])) = plain HTTP_OK (Content [])"
    by code_simp
  have 2: "hget (keyspace (snd (queue_reply clock0 (http ''c'' ''text/plain'' []) (alone []))))
        (''c'' @ '':'' @ REPLY) MESSAGE = Some []"
    by code_simp
  have 3: "map_option (\<lambda>(out, w'). (out, hget (keyspace w') (''c'' @ '':'' @ REPLY) MESSAGE,
                  fst (queue_reply clock0 (http ''c'' ''text/plain'' ''next'') w')))
             (dequeue default_config clock0 REPLY ''c'' False
                (snd (queue_reply clock0 (http ''c'' ''text/plain'' []) (alone []))))
           = Some (Returns (Some [], True), Some [],
                   plain HTTP_SYS_ERR (Exception_message (Unprocessed ''c:reply'')))"
    by code_simp
  have 4: "map_option (status \<circ> fst)
        (dequeue_reply default_config clock0 (poll_request ''c'')
           (snd (queue_reply clock0 (http ''c'' ''text/plain'' []) (alone [])))) = Some HTTP_OK"
    by code_simp
  from 3 have "\<exists>w'. dequeue default_config clock0 REPLY ''c'' False
                (snd (queue_reply clock0 (http ''c'' ''text/plain'' []) (alone [])))
              = Some (Returns (Some [], True), w')
            \<and> hget (keyspace w') (''c'' @ '':'' @ REPLY) MESSAGE = Some []
            \<and> fst (queue_reply clock0 (http ''c'' ''text/plain'' ''next'') w')
                = plain HTTP_SYS_ERR (Exception_message (Unprocessed ''c:reply''))"
    by (auto simp: map_option_case split: option.splits)
  with 1 2 4 show ?thesis by blast
qed

subsection \<open>\<^verbatim>\<open>_enqueue\<close>: what it writes\<close>

lemma slot_key_inject:
  assumes "operation = REQUEST \<or> operation = REPLY" and "operation' = REQUEST \<or> operation' = REPLY"
    and "channel' @ '':'' @ operation' = channel @ '':'' @ operation"
  shows "channel' = channel \<and> operation' = operation"
proof -
  have "last (channel' @ '':'' @ operation') = last (channel @ '':'' @ operation)"
    using assms(3) by simp
  then have "operation' = operation"
    using assms(1,2) by (auto simp: key_names)
  then show ?thesis using assms(3) by simp
qed

lemma count_field_ne: "COUNT @ '':'' @ operation \<noteq> operation"
proof
  assume "COUNT @ '':'' @ operation = operation"
  then have "length (COUNT @ '':'' @ operation) = length operation" by simp
  then show False by simp
qed

lemma lookup_enqueued_same:
  "lookup (enqueued tm key msg ks) key =
     Some \<lparr>hash = fold (\<lambda>(f, v). AList.update f v)
                    [(MESSAGE, msg), (PICKUP_TIME, []), (POSTED_TIME, asctime tm)]
                    (hash (entry_of ks key)),
           ttl = Some EXPIRE_SECS\<rparr>"
  by (simp add: enqueued_def lookup_expire_key EXPIRE_SECS_pos lookup_hmset)

lemma hash_int_enqueued_other:
  "k \<noteq> key \<Longrightarrow> hash_int (enqueued tm key msg ks) k f = hash_int ks k f"
  by (simp add: hash_int_def hget_enqueued)

text \<open>
  C10. A successful \<^verbatim>\<open>_enqueue\<close>, with no other client in between, leaves the slot's hash
  as its one multi-field set made it (\<open>message\<close>, \<open>pickup_time\<close> and \<open>posted_time\<close> written,
  every other field, \<open>dequeue_busy\<close> and \<open>reply_fast_polls_left\<close> among them, as before),
  adds 1 and the length of the message to the two counters of the day for its direction
  and leaves the day's other fields alone, and leaves every other key as it was: the
  slots of every other channel and the slot of the opposite direction in particular.
\<close>

theorem enqueue_frame:
  assumes quiet: "others w = []"
    and dir: "operation = REQUEST \<or> operation = REPLY"
    and ok: "enqueue tm operation channel msg w = (Returns (), w')"
  shows "lookup (keyspace w') (channel @ '':'' @ operation)
           = Some \<lparr>hash = fold (\<lambda>(f, v). AList.update f v)
                            [(MESSAGE, msg), (PICKUP_TIME, []), (POSTED_TIME, asctime tm)]
                            (hash (entry_of (keyspace w) (channel @ '':'' @ operation))),
                   ttl = Some EXPIRE_SECS\<rparr>
     \<and> hget (keyspace w') (channel @ '':'' @ operation) MESSAGE = Some msg
     \<and> hget (keyspace w') (channel @ '':'' @ operation) POSTED_TIME = Some (asctime tm)
     \<and> hget (keyspace w') (channel @ '':'' @ operation) PICKUP_TIME = Some []
     \<and> (\<forall>f. f \<noteq> MESSAGE \<and> f \<noteq> POSTED_TIME \<and> f \<noteq> PICKUP_TIME \<longrightarrow>
           hget (keyspace w') (channel @ '':'' @ operation) f
             = hget (keyspace w) (channel @ '':'' @ operation) f)
     \<and> hget (keyspace w') (channel @ '':'' @ operation) DEQUEUE_BUSY
         = hget (keyspace w) (channel @ '':'' @ operation) DEQUEUE_BUSY
     \<and> hget (keyspace w') (channel @ '':'' @ operation) REPLY_FAST_POLLS_LEFT
         = hget (keyspace w) (channel @ '':'' @ operation) REPLY_FAST_POLLS_LEFT
     \<and> (\<exists>n. hash_int (keyspace w) (strftime_stat tm) (COUNT @ '':'' @ operation) = Some n
             \<and> hash_int (keyspace w') (strftime_stat tm) (COUNT @ '':'' @ operation) = Some (n + 1))
     \<and> (\<exists>n. hash_int (keyspace w) (strftime_stat tm) operation = Some n
             \<and> hash_int (keyspace w') (strftime_stat tm) operation = Some (n + int (length msg)))
     \<and> (\<forall>f. f \<noteq> COUNT @ '':'' @ operation \<and> f \<noteq> operation \<longrightarrow>
           hget (keyspace w') (strftime_stat tm) f = hget (keyspace w) (strftime_stat tm) f)
     \<and> (\<forall>k. k \<noteq> channel @ '':'' @ operation \<and> k \<noteq> strftime_stat tm \<longrightarrow>
           lookup (keyspace w') k = lookup (keyspace w) k)
     \<and> (\<forall>channel' operation'.
           (operation' = REQUEST \<or> operation' = REPLY)
           \<and> (channel' \<noteq> channel \<or> operation' \<noteq> operation) \<longrightarrow>
           lookup (keyspace w') (channel' @ '':'' @ operation')
             = lookup (keyspace w) (channel' @ '':'' @ operation'))
     \<and> others w' = [] \<and> naps w' = naps w"
proof -
  define key where "key = channel @ '':'' @ operation"
  define cf where "cf = COUNT @ '':'' @ operation"
  define sk where "sk = strftime_stat tm"
  define E where "E = enqueued tm key msg (keyspace w)"
  from quiet ok obtain v ks2 v' where
    1: "hincrby E sk cf 1 = Some (v, ks2)"
    and 2: "hincrby ks2 sk operation (int (length msg)) = Some (v', keyspace w')"
    and q: "others w' = []" and n: "naps w' = naps w"
    unfolding E_def sk_def cf_def key_def by (rule enqueue_returns)
  have ne: "key \<noteq> sk" "sk \<noteq> key"
    using stat_key_not_slot [OF dir, of tm channel] by (auto simp: key_def sk_def)
  have cf: "cf \<noteq> operation" "operation \<noteq> cf"
    using count_field_ne [of operation] by (auto simp: cf_def)
  from hincrby_SomeD [OF 1] have
    k2: "ks2 = snd (hmset E sk [(cf, str_int v)])"
    and c1: "hash_int E sk cf = Some (v - 1)"
    and r1: "- (2 ^ 63) \<le> v" "v < 2 ^ 63" by simp_all
  from hincrby_SomeD [OF 2] have
    k3: "keyspace w' = snd (hmset ks2 sk [(operation, str_int v')])"
    and c2: "hash_int ks2 sk operation = Some (v' - int (length msg))"
    and r2: "- (2 ^ 63) \<le> v'" "v' < 2 ^ 63" by simp_all
  have L: "lookup (keyspace w') k = lookup E k" if "k \<noteq> sk" for k
    using that by (simp add: k3 k2 lookup_hmset)
  have H: "hget (keyspace w') k f = hget E k f" if "k \<noteq> sk" for k f
    using that by (simp add: k3 k2 hget_hmset)
  have a: "lookup (keyspace w') key
           = Some \<lparr>hash = fold (\<lambda>(f, v). AList.update f v)
                            [(MESSAGE, msg), (PICKUP_TIME, []), (POSTED_TIME, asctime tm)]
                            (hash (entry_of (keyspace w) key)),
                   ttl = Some EXPIRE_SECS\<rparr>"
    using L [OF ne(1)] by (simp only: E_def lookup_enqueued_same)
  have b: "hget (keyspace w') key f =
     (if f = MESSAGE then Some msg else if f = PICKUP_TIME then Some []
      else if f = POSTED_TIME then Some (asctime tm) else hget (keyspace w) key f)" for f
    using H [OF ne(1), of f] by (simp add: E_def hget_enqueued)
  have b1: "hget (keyspace w') key MESSAGE = Some msg"
     "hget (keyspace w') key POSTED_TIME = Some (asctime tm)"
     "hget (keyspace w') key PICKUP_TIME = Some []"
     "hget (keyspace w') key DEQUEUE_BUSY = hget (keyspace w) key DEQUEUE_BUSY"
     "hget (keyspace w') key REPLY_FAST_POLLS_LEFT = hget (keyspace w) key REPLY_FAST_POLLS_LEFT"
    by (simp_all add: b field_names)
  have b2: "\<forall>f. f \<noteq> MESSAGE \<and> f \<noteq> POSTED_TIME \<and> f \<noteq> PICKUP_TIME \<longrightarrow>
           hget (keyspace w') key f = hget (keyspace w) key f"
    by (simp add: b)
  have s0: "hash_int E sk f = hash_int (keyspace w) sk f" for f
    using ne by (simp add: E_def hash_int_enqueued_other)
  have s1: "hash_int (keyspace w) sk cf = Some (v - 1)
            \<and> hash_int (keyspace w') sk cf = Some (v - 1 + 1)"
    using c1 cf r1 r2 by (simp add: s0 k3 k2 hash_int_hmset_str)
  have s2: "hash_int (keyspace w) sk operation = Some (v' - int (length msg))
            \<and> hash_int (keyspace w') sk operation = Some (v' - int (length msg) + int (length msg))"
    using c2 cf r1 r2 by (simp add: s0 k3 k2 hash_int_hmset_str)
  have s3: "\<forall>f. f \<noteq> cf \<and> f \<noteq> operation \<longrightarrow>
           hget (keyspace w') sk f = hget (keyspace w) sk f"
    using ne by (simp add: k3 k2 hget_hmset E_def hget_enqueued)
  have o: "\<forall>k. k \<noteq> key \<and> k \<noteq> sk \<longrightarrow> lookup (keyspace w') k = lookup (keyspace w) k"
    by (simp add: L E_def lookup_enqueued_other)
  have o2: "lookup (keyspace w') (channel' @ '':'' @ operation')
             = lookup (keyspace w) (channel' @ '':'' @ operation')"
    if "operation' = REQUEST \<or> operation' = REPLY"
      and "channel' \<noteq> channel \<or> operation' \<noteq> operation" for channel' operation'
  proof -
    have "channel' @ '':'' @ operation' \<noteq> key"
      using slot_key_inject [OF dir that(1), of channel' channel] that(2) unfolding key_def by blast
    moreover have "channel' @ '':'' @ operation' \<noteq> sk"
      using stat_key_not_slot [OF that(1), of tm channel'] unfolding sk_def by simp
    ultimately show ?thesis using o by blast
  qed
  show ?thesis
    using a b1 b2 s1 s2 s3 o o2 q n unfolding key_def cf_def sk_def by blast
qed

theorem enqueue_frame_witness:
  "others (alone (polled ''c1:request'')) = []
   \<and> enqueue clock0 REQUEST ''c1'' ''{}'' (alone (polled ''c1:request''))
       = (Returns (), snd (enqueue clock0 REQUEST ''c1'' ''{}'' (alone (polled ''c1:request''))))
   \<and> hget (keyspace (snd (enqueue clock0 REQUEST ''c1'' ''{}'' (alone (polled ''c1:request'')))))
        (''c1'' @ '':'' @ REQUEST) MESSAGE = Some ''{}''
   \<and> hget (keyspace (snd (enqueue clock0 REQUEST ''c1'' ''{}'' (alone (polled ''c1:request'')))))
        (''c1'' @ '':'' @ REQUEST) DEQUEUE_BUSY = Some DEQUEUE_BUSY_STATUS
   \<and> hget (keyspace (snd (enqueue clock0 REQUEST ''c1'' ''{}'' (alone (polled ''c1:request'')))))
        (''c1'' @ '':'' @ REQUEST) REPLY_FAST_POLLS_LEFT = Some ''3''
   \<and> hash_int (keyspace (snd (enqueue clock0 REQUEST ''c1'' ''{}'' (alone (polled ''c1:request'')))))
        (strftime_stat clock0) (COUNT @ '':'' @ REQUEST) = Some 1
   \<and> hash_int (keyspace (snd (enqueue clock0 REQUEST ''c1'' ''{}'' (alone (polled ''c1:request'')))))
        (strftime_stat clock0) REQUEST = Some 2
   \<and> lookup (keyspace (snd (enqueue clock0 REQUEST ''c1'' ''{}'' (alone (polled ''c1:request'')))))
        (''c9'' @ '':'' @ REPLY) = Some \<lparr>hash = [(MESSAGE, ''kept'')], ttl = Some 50\<rparr>
   \<and> lookup (keyspace (snd (enqueue clock0 REQUEST ''c1'' ''{}'' (alone (polled ''c1:request'')))))
        (''c1'' @ '':'' @ REPLY) = None"
proof -
  let ?w = "alone (polled ''c1:request'')"
  let ?w' = "snd (enqueue clock0 REQUEST ''c1'' ''{}'' ?w)"
  have q: "others ?w = []" by (simp add: alone_def)
  have "fst (enqueue clock0 REQUEST ''c1'' ''{}'' ?w) = Returns ()" by code_simp
  then have ok: "enqueue clock0 REQUEST ''c1'' ''{}'' ?w = (Returns (), ?w')"
    by (simp add: prod_eq_iff)
  have before:
    "hget (keyspace ?w) (''c1'' @ '':'' @ REQUEST) DEQUEUE_BUSY = Some DEQUEUE_BUSY_STATUS"
    "hget (keyspace ?w) (''c1'' @ '':'' @ REQUEST) REPLY_FAST_POLLS_LEFT = Some ''3''"
    "hash_int (keyspace ?w) (strftime_stat clock0) (COUNT @ '':'' @ REQUEST) = Some 0"
    "hash_int (keyspace ?w) (strftime_stat clock0) REQUEST = Some 0"
    "lookup (keyspace ?w) (''c9'' @ '':'' @ REPLY) = Some \<lparr>hash = [(MESSAGE, ''kept'')], ttl = Some 50\<rparr>"
    "lookup (keyspace ?w) (''c1'' @ '':'' @ REPLY) = None"
    by code_simp+
  note F = enqueue_frame [OF q disjI1 [OF refl] ok]
  have m: "hget (keyspace ?w') (''c1'' @ '':'' @ REQUEST) MESSAGE = Some ''{}''"
    using F by (elim conjE) assumption
  have b: "hget (keyspace ?w') (''c1'' @ '':'' @ REQUEST) DEQUEUE_BUSY
             = hget (keyspace ?w) (''c1'' @ '':'' @ REQUEST) DEQUEUE_BUSY"
    using F by (elim conjE) assumption
  have c: "hget (keyspace ?w') (''c1'' @ '':'' @ REQUEST) REPLY_FAST_POLLS_LEFT
             = hget (keyspace ?w) (''c1'' @ '':'' @ REQUEST) REPLY_FAST_POLLS_LEFT"
    using F by (elim conjE) assumption
  have "\<exists>n. hash_int (keyspace ?w) (strftime_stat clock0) (COUNT @ '':'' @ REQUEST) = Some n
           \<and> hash_int (keyspace ?w') (strftime_stat clock0) (COUNT @ '':'' @ REQUEST) = Some (n + 1)"
    using F by (elim conjE) assumption
  then have s1: "hash_int (keyspace ?w') (strftime_stat clock0) (COUNT @ '':'' @ REQUEST) = Some 1"
    using before(3) by auto
  have "\<exists>n. hash_int (keyspace ?w) (strftime_stat clock0) REQUEST = Some n
           \<and> hash_int (keyspace ?w') (strftime_stat clock0) REQUEST = Some (n + int (length ''{}''))"
    using F by (elim conjE) assumption
  then have s2: "hash_int (keyspace ?w') (strftime_stat clock0) REQUEST = Some 2"
    using before(4) by auto
  have o: "\<forall>channel' operation'.
           (operation' = REQUEST \<or> operation' = REPLY)
           \<and> (channel' \<noteq> ''c1'' \<or> operation' \<noteq> REQUEST) \<longrightarrow>
           lookup (keyspace ?w') (channel' @ '':'' @ operation')
             = lookup (keyspace ?w) (channel' @ '':'' @ operation')"
    using F by (elim conjE) assumption
  have o1: "lookup (keyspace ?w') (''c9'' @ '':'' @ REPLY) = lookup (keyspace ?w) (''c9'' @ '':'' @ REPLY)"
    using o [rule_format, of REPLY "''c9''"] by simp
  have o2: "lookup (keyspace ?w') (''c1'' @ '':'' @ REPLY) = lookup (keyspace ?w) (''c1'' @ '':'' @ REPLY)"
    using o [rule_format, of REPLY "''c1''"] by (simp add: key_names)
  show ?thesis
    using q ok m b c s1 s2 o1 o2 before by simp
qed

lemma enqueue_free:
  assumes quiet: "others w = []"
    and free: "hget (keyspace w) (channel @ '':'' @ operation) MESSAGE = None"
  obtains r w' where "enqueue tm operation channel msg w = (r, w')"
    and "r = Returns () \<or> r = Raises ResponseError"
    and "others w' = []" and "naps w' = naps w"
    and "\<And>k. k \<noteq> strftime_stat tm \<Longrightarrow>
           lookup (keyspace w') k
             = lookup (enqueued tm (channel @ '':'' @ operation) msg (keyspace w)) k"
proof -
  note rule = that
  define key where "key = channel @ '':'' @ operation"
  define cf where "cf = COUNT @ '':'' @ operation"
  define sk where "sk = strftime_stat tm"
  define E where "E = enqueued tm key msg (keyspace w)"
  have e: "enqueue tm operation channel msg w =
     (case hincrby E sk cf 1 of
        None \<Rightarrow> (Raises ResponseError, w\<lparr>keyspace := E\<rparr>)
      | Some (v, ks2) \<Rightarrow>
          (case hincrby ks2 sk operation (int (length msg)) of
             None \<Rightarrow> (Raises ResponseError, w\<lparr>keyspace := ks2\<rparr>)
           | Some (v', ks3) \<Rightarrow> (Returns (), w\<lparr>keyspace := ks3\<rparr>)))"
    using free unfolding enqueue_quiet [OF quiet] Let_def E_def sk_def cf_def key_def by simp
  have T: thesis
    if "enqueue tm operation channel msg w = (r, w')"
      and "r = Returns () \<or> r = Raises ResponseError"
      and "others w' = []" and "naps w' = naps w"
      and "\<And>k. k \<noteq> sk \<Longrightarrow> lookup (keyspace w') k = lookup E k"
    for r w'
    using rule [of r w'] that unfolding E_def key_def sk_def by blast
  show thesis
  proof (cases "hincrby E sk cf 1")
    case None
    show thesis
      by (rule T [of "Raises ResponseError" "w\<lparr>keyspace := E\<rparr>"])
         (simp_all add: e None quiet)
  next
    case (Some p)
    obtain v ks2 where p: "p = (v, ks2)" by (cases p)
    have k2: "ks2 = snd (hmset E sk [(cf, str_int v)])"
      using hincrby_SomeD [of E sk cf 1 v ks2] Some p by simp
    have l2: "lookup ks2 k = lookup E k" if "k \<noteq> sk" for k
      using that by (simp add: k2 lookup_hmset)
    show thesis
    proof (cases "hincrby ks2 sk operation (int (length msg))")
      case None
      show thesis
        by (rule T [of "Raises ResponseError" "w\<lparr>keyspace := ks2\<rparr>"])
           (simp_all add: e Some p None quiet l2)
    next
      case (Some p')
      obtain v' ks3 where p': "p' = (v', ks3)" by (cases p')
      have k3: "ks3 = snd (hmset ks2 sk [(operation, str_int v')])"
        using hincrby_SomeD [of ks2 sk operation "int (length msg)" v' ks3] Some p' by simp
      have l3: "lookup ks3 k = lookup E k" if "k \<noteq> sk" for k
        using that l2 by (simp add: k3 lookup_hmset)
      show thesis
        by (rule T [of "Returns ()" "w\<lparr>keyspace := ks3\<rparr>"])
           (simp_all add: e \<open>hincrby E sk cf 1 = Some p\<close> p Some p' quiet l3)
    qed
  qed
qed

lemma hget_lookup_cong: "lookup ks k = lookup ks' k' \<Longrightarrow> hget ks k f = hget ks' k' f"
  by (simp add: hget_def)

subsection \<open>\<^verbatim>\<open>queue_request\<close>: the stranded reply\<close>

lemma queue_request_eq:
  assumes "map_of (args req) ''channel'' = Some channel"
    and "req_content_type req = Some ct" and "startswith ct ''application/json''"
  shows "queue_request tm req w =
     caught (seq (redis_hget (channel @ '':'' @ REPLY) MESSAGE)
               (\<lambda>last_reply.
                  seq (if truthy last_reply then del_message (channel @ '':'' @ REPLY) False
                       else return ())
               (\<lambda>_. seq (enqueue tm REQUEST channel (data req))
               (\<lambda>_. return (plain HTTP_OK (Content []))))) w)"
  using assms by (simp add: queue_request_def Let_def cong: if_cong)

lemma sweep_fails:
  assumes "map_of (args req) ''channel'' = Some channel"
    and "req_content_type req = Some ct" and "startswith ct ''application/json''"
    and "truthy (hget (keyspace (meanwhile w)) (channel @ '':'' @ REPLY) MESSAGE)"
    and "hget (keyspace (meanwhile (meanwhile w))) (channel @ '':'' @ REPLY) MESSAGE = None"
  shows "queue_request tm req w
           = (plain HTTP_SYS_ERR (Exception_message (FailedDeleting (channel @ '':'' @ REPLY))),
              meanwhile (meanwhile w))"
  using assms(4,5) unfolding queue_request_eq [OF assms(1-3)]
  by (simp add: seq_def redis_hget_eq del_message_strict caught_def)

lemma sweep_quiet:
  assumes quiet: "others w = []"
    and "map_of (args req) ''channel'' = Some channel"
    and "req_content_type req = Some ct" and "startswith ct ''application/json''"
    and stale: "hget (keyspace w) (channel @ '':'' @ REPLY) MESSAGE \<noteq> Some []"
    and free: "hget (keyspace w) (channel @ '':'' @ REQUEST) MESSAGE = None"
  shows "hget (keyspace (snd (queue_request tm req w))) (channel @ '':'' @ REPLY) MESSAGE = None
     \<and> hget (keyspace (snd (queue_request tm req w))) (channel @ '':'' @ REQUEST) MESSAGE
         = Some (data req)
     \<and> (fst (queue_request tm req w) = plain HTTP_OK (Content [])
        \<or> fst (queue_request tm req w) = plain HTTP_SYS_ERR (Exception_message ResponseError))"
proof -
  define rk where "rk = channel @ '':'' @ REPLY"
  define qk where "qk = channel @ '':'' @ REQUEST"
  define w1 where "w1 = (if truthy (hget (keyspace w) rk MESSAGE)
                         then w\<lparr>keyspace := snd (hdel (keyspace w) rk MESSAGE)\<rparr> else w)"
  have ne: "rk \<noteq> qk" "qk \<noteq> rk" by (auto simp: rk_def qk_def key_names)
  have sk: "rk \<noteq> strftime_stat tm" "qk \<noteq> strftime_stat tm"
    using stat_key_not_slot [of REPLY tm channel] stat_key_not_slot [of REQUEST tm channel]
    by (auto simp: rk_def qk_def)
  have q1: "others w1 = []" by (simp add: w1_def quiet)
  have r1: "hget (keyspace w1) rk MESSAGE = None"
    using stale by (auto simp: w1_def hget_hdel truthy_def rk_def)
  have f1: "hget (keyspace w1) qk MESSAGE = None"
    using free ne by (simp add: w1_def hget_hdel qk_def)
  have step: "queue_request tm req w =
      caught (seq (enqueue tm REQUEST channel (data req))
                (\<lambda>_. return (plain HTTP_OK (Content []))) w1)"
    unfolding queue_request_eq [OF assms(2-4)]
    by (simp add: seq_def redis_hget_eq del_message_strict return_def meanwhile_quiet quiet
          w1_def rk_def truthy_def)
  from q1 f1 [unfolded qk_def] obtain r w' where
    e: "enqueue tm REQUEST channel (data req) w1 = (r, w')"
    and r: "r = Returns () \<or> r = Raises ResponseError"
    and l: "\<And>k. k \<noteq> strftime_stat tm \<Longrightarrow>
             lookup (keyspace w') k = lookup (enqueued tm (channel @ '':'' @ REQUEST) (data req) (keyspace w1)) k"
    by (rule enqueue_free) blast
  have res: "queue_request tm req w =
      (if r = Returns () then plain HTTP_OK (Content [])
       else plain HTTP_SYS_ERR (Exception_message ResponseError), w')"
    using r by (auto simp: step seq_def e return_def caught_def)
  have a: "hget (keyspace w') rk MESSAGE = None"
    using hget_lookup_cong [OF l [OF sk(1)], of MESSAGE] r1 ne [unfolded qk_def]
    by (simp add: hget_enqueued)
  have b: "hget (keyspace w') qk MESSAGE = Some (data req)"
    using hget_lookup_cong [OF l [OF sk(2)], of MESSAGE]
    by (simp add: hget_enqueued qk_def)
  show ?thesis
    using a b r unfolding res rk_def qk_def by auto
qed

text \<open>
  C5, as stated, fails: the delete of the stranded reply is the strict one
  (\<^verbatim>\<open>_del_message(reply_key)\<close>, \<^verbatim>\<open>permissive\<close> false). When the field is gone by the time
  of the delete, the handler answers 500 and the request is not stored.
\<close>

theorem stranded_reply_sweep_counterexample:
  "fst (queue_request clock0 (http ''c2'' ''application/json'' ''{}'')
          ((alone (holding ''c2:reply'' ''stale''))\<lparr>others := taken ''c2:reply''\<rparr>))
     = plain HTTP_SYS_ERR (Exception_message (FailedDeleting ''c2:reply''))
   \<and> hget (keyspace (snd (queue_request clock0 (http ''c2'' ''application/json'' ''{}'')
          ((alone (holding ''c2:reply'' ''stale''))\<lparr>others := taken ''c2:reply''\<rparr>))))
        (''c2'' @ '':'' @ REQUEST) MESSAGE = None"
  by code_simp

text \<open>
  Two more inputs where the conclusion of C5 does not hold: a request slot that is still
  occupied (by design, the new request is refused), and a stranded reply that is the
  empty byte string (\<^verbatim>\<open>if last_reply:\<close> takes it for no reply, and it stays).
\<close>

lemma stranded_reply_request_occupied:
  "fst (queue_request clock0 (http ''c2'' ''application/json'' ''{}'')
          (alone (holding ''c2:request'' ''old'')))
     = plain HTTP_SYS_ERR (Exception_message (Unprocessed ''c2:request''))
   \<and> hget (keyspace (snd (queue_request clock0 (http ''c2'' ''application/json'' ''{}'')
          (alone (holding ''c2:request'' ''old'')))))
        (''c2'' @ '':'' @ REQUEST) MESSAGE = Some ''old''"
  by code_simp

lemma stranded_empty_reply_stays:
  "fst (queue_request clock0 (http ''c2'' ''application/json'' ''{}'')
          (alone (holding ''c2:reply'' [])))
     = plain HTTP_OK (Content [])
   \<and> hget (keyspace (snd (queue_request clock0 (http ''c2'' ''application/json'' ''{}'')
          (alone (holding ''c2:reply'' [])))))
        (''c2'' @ '':'' @ REPLY) MESSAGE = Some []"
  by code_simp

text \<open>
  C5, amended. On a \<^verbatim>\<open>queue_request\<close> with a channel and a JSON content type, the handler
  reads the reply slot's \<open>message\<close> and, when it is present and not empty, deletes it with
  the strict delete: if the field is gone by then, the handler answers 500 and stores
  nothing. With no other client in between, a stranded reply that is not the empty byte
  string, and a free request slot, afterwards the reply slot's \<open>message\<close> is absent and the
  request slot's \<open>message\<close> is the posted payload (the answer is 200, or 500 when Redis
  refuses to count the request).
\<close>

theorem stranded_reply_sweep:
  "map_of (args req) ''channel'' = Some channel \<and> req_content_type req = Some ct
     \<and> startswith ct ''application/json'' \<longrightarrow>
   (truthy (hget (keyspace (meanwhile w)) (channel @ '':'' @ REPLY) MESSAGE)
      \<and> hget (keyspace (meanwhile (meanwhile w))) (channel @ '':'' @ REPLY) MESSAGE = None \<longrightarrow>
    queue_request tm req w
      = (plain HTTP_SYS_ERR (Exception_message (FailedDeleting (channel @ '':'' @ REPLY))),
         meanwhile (meanwhile w)))
   \<and> (others w = []
        \<and> hget (keyspace w) (channel @ '':'' @ REPLY) MESSAGE \<noteq> Some []
        \<and> hget (keyspace w) (channel @ '':'' @ REQUEST) MESSAGE = None \<longrightarrow>
      hget (keyspace (snd (queue_request tm req w))) (channel @ '':'' @ REPLY) MESSAGE = None
      \<and> hget (keyspace (snd (queue_request tm req w))) (channel @ '':'' @ REQUEST) MESSAGE
          = Some (data req)
      \<and> (fst (queue_request tm req w) = plain HTTP_OK (Content [])
         \<or> fst (queue_request tm req w) = plain HTTP_SYS_ERR (Exception_message ResponseError)))"
  using sweep_fails [of req channel ct w tm] sweep_quiet [of w req channel ct tm]
  by blast

theorem stranded_reply_sweep_witness:
  "map_of (args (http ''c2'' ''application/json'' ''{}'')) ''channel'' = Some ''c2''
   \<and> req_content_type (http ''c2'' ''application/json'' ''{}'') = Some ''application/json''
   \<and> startswith ''application/json'' ''application/json''
   \<and> truthy (hget (keyspace (meanwhile ((alone (holding ''c2:reply'' ''stale''))\<lparr>others := taken ''c2:reply''\<rparr>)))
        (''c2'' @ '':'' @ REPLY) MESSAGE)
   \<and> hget (keyspace (meanwhile (meanwhile ((alone (holding ''c2:reply'' ''stale''))\<lparr>others := taken ''c2:reply''\<rparr>))))
        (''c2'' @ '':'' @ REPLY) MESSAGE = None
   \<and> fst (queue_request clock0 (http ''c2'' ''application/json'' ''{}'')
          ((alone (holding ''c2:reply'' ''stale''))\<lparr>others := taken ''c2:reply''\<rparr>))
       = plain HTTP_SYS_ERR (Exception_message (FailedDeleting (''c2'' @ '':'' @ REPLY)))
   \<and> others (alone (holding ''c2:reply'' ''stale'')) = []
   \<and> hget (keyspace (alone (holding ''c2:reply'' ''stale''))) (''c2'' @ '':'' @ REPLY) MESSAGE
       = Some ''stale''
   \<and> hget (keyspace (alone (holding ''c2:reply'' ''stale''))) (''c2'' @ '':'' @ REQUEST) MESSAGE = None
   \<and> hget (keyspace (snd (queue_request clock0 (http ''c2'' ''application/json'' ''{}'')
          (alone (holding ''c2:reply'' ''stale''))))) (''c2'' @ '':'' @ REPLY) MESSAGE = None
   \<and> hget (keyspace (snd (queue_request clock0 (http ''c2'' ''application/json'' ''{}'')
          (alone (holding ''c2:reply'' ''stale''))))) (''c2'' @ '':'' @ REQUEST) MESSAGE = Some ''{}''
   \<and> fst (queue_request clock0 (http ''c2'' ''application/json'' ''{}'')
          (alone (holding ''c2:reply'' ''stale''))) = plain HTTP_OK (Content [])"
proof -
  let ?req = "http ''c2'' ''application/json'' ''{}''"
  let ?w = "(alone (holding ''c2:reply'' ''stale''))\<lparr>others := taken ''c2:reply''\<rparr>"
  let ?v = "alone (holding ''c2:reply'' ''stale'')"
  have r: "map_of (args ?req) ''channel'' = Some ''c2''"
     "req_content_type ?req = Some ''application/json''"
     "startswith ''application/json'' ''application/json''"
     "data ?req = ''{}''"
    by (simp_all add: http_def startswith_def)
  have a: "truthy (hget (keyspace (meanwhile ?w)) (''c2'' @ '':'' @ REPLY) MESSAGE)"
     "hget (keyspace (meanwhile (meanwhile ?w))) (''c2'' @ '':'' @ REPLY) MESSAGE = None"
    by code_simp+
  have b: "others ?v = []" by (simp add: alone_def)
  have c: "hget (keyspace ?v) (''c2'' @ '':'' @ REPLY) MESSAGE = Some ''stale''"
     "hget (keyspace ?v) (''c2'' @ '':'' @ REQUEST) MESSAGE = None"
    by code_simp+
  have d: "fst (queue_request clock0 ?req ?v) = plain HTTP_OK (Content [])"
    by code_simp
  show ?thesis
    using r a b c d
      stranded_reply_sweep [of ?req "''c2''" "''application/json''" ?w clock0]
      stranded_reply_sweep [of ?req "''c2''" "''application/json''" ?v clock0]
    by simp
qed

subsection \<open>\<^verbatim>\<open>stats\<close>\<close>














subsection \<open>\<^verbatim>\<open>_dequeue\<close> with no other client\<close>

lemma hget_prepared:
  "hget (prepared key reset_first ks) k f =
     (if k = key then
        (if f = DEQUEUE_BUSY then Some DEQUEUE_BUSY_STATUS
         else if f = PICKUP_TIME then Some []
         else if f = MESSAGE \<and> reset_first then None
         else hget ks key f)
      else hget ks k f)"
  by (simp add: prepared_def Let_def hget_expire_key EXPIRE_SECS_pos hget_hmset hget_hdel field_names)

lemma lookup_prepared_same:
  "\<exists>e. lookup (prepared key reset_first ks) key = Some e \<and> ttl e = Some EXPIRE_SECS"
  by (simp add: prepared_def Let_def lookup_expire_key EXPIRE_SECS_pos lookup_hmset)

lemma lookup_prepared_other:
  "k \<noteq> key \<Longrightarrow> lookup (prepared key reset_first ks) k = lookup ks k"
  by (simp add: prepared_def Let_def lookup_expire_key EXPIRE_SECS_pos lookup_hmset lookup_hdel)

lemma cadence_quiet:
  assumes "others w = []"
  shows "cadence cfg key w =
     (case fast_polls_of cfg (hget (keyspace w) key REPLY_FAST_POLLS_LEFT) of
        None \<Rightarrow> (Raises ValueError, w)
      | Some n \<Rightarrow>
          if 0 < n then
            (Returns (n - 1, FAST_DEQUEUE_POLLING_SECS cfg),
             w\<lparr>keyspace := snd (hmset (keyspace w) key [(REPLY_FAST_POLLS_LEFT, str_int (n - 1))])\<rparr>)
          else (Returns (n, SLOW_DEQUEUE_POLLING_SECS cfg), w))"
  using assms
  by (simp add: cadence_def seq_def redis_hget_eq set_key_value_eq return_def raise_def
        meanwhile_quiet split: option.splits)

lemma prepare_quiet:
  assumes "others w = []"
  shows "prepare cfg key reset_first w =
     (let P = prepared key reset_first (keyspace w)
      in case fast_polls_of cfg (hget (keyspace w) key REPLY_FAST_POLLS_LEFT) of
           None \<Rightarrow> (Raises ValueError, w\<lparr>keyspace := P\<rparr>)
         | Some n \<Rightarrow>
             if 0 < n then
               (Returns (FAST_DEQUEUE_POLLING_SECS cfg, hget P key MESSAGE),
                w\<lparr>keyspace := snd (hmset P key [(REPLY_FAST_POLLS_LEFT, str_int (n - 1))])\<rparr>)
             else (Returns (SLOW_DEQUEUE_POLLING_SECS cfg, hget P key MESSAGE), w\<lparr>keyspace := P\<rparr>))"
proof -
  define P where "P = prepared key reset_first (keyspace w)"
  define wP where "wP = w\<lparr>keyspace := P\<rparr>"
  have q: "others wP = []" by (simp add: wP_def assms)
  have l: "lookup (snd (hmset ks key m)) key \<noteq> None" for ks m
    by (simp add: lookup_hmset)
  have 1: "seq (set_key_value key [(DEQUEUE_BUSY, DEQUEUE_BUSY_STATUS)])
             (\<lambda>_. seq (if reset_first then del_message key True else return ())
             (\<lambda>_. seq (set_key_value key [(PICKUP_TIME, [])])
             (\<lambda>_. seq (expire key) f))) w = f () wP" for f :: "unit \<Rightarrow> 'a action"
    using assms
    by (cases reset_first)
       (simp_all add: seq_def set_key_value_eq del_message_permissive expire_eq return_def
          meanwhile_quiet wP_def P_def prepared_def Let_def lookup_hmset)
  have c: "hget P key REPLY_FAST_POLLS_LEFT = hget (keyspace w) key REPLY_FAST_POLLS_LEFT"
    by (simp add: P_def hget_prepared field_names)
  have k: "keyspace wP = P" by (simp add: wP_def)
  have cq: "cadence cfg key wP =
     (case fast_polls_of cfg (hget (keyspace w) key REPLY_FAST_POLLS_LEFT) of
        None \<Rightarrow> (Raises ValueError, wP)
      | Some n \<Rightarrow>
          if 0 < n then
            (Returns (n - 1, FAST_DEQUEUE_POLLING_SECS cfg),
             wP\<lparr>keyspace := snd (hmset P key [(REPLY_FAST_POLLS_LEFT, str_int (n - 1))])\<rparr>)
          else (Returns (n, SLOW_DEQUEUE_POLLING_SECS cfg), wP))"
    using cadence_quiet [OF q, of cfg key] unfolding k c .
  have m: "hget (snd (hmset P key [(REPLY_FAST_POLLS_LEFT, v)])) key MESSAGE = hget P key MESSAGE" for v
    by (simp add: hget_hmset field_names)
  have "prepare cfg key reset_first w =
     (case fast_polls_of cfg (hget (keyspace w) key REPLY_FAST_POLLS_LEFT) of
           None \<Rightarrow> (Raises ValueError, wP)
         | Some n \<Rightarrow>
             if 0 < n then
               (Returns (FAST_DEQUEUE_POLLING_SECS cfg, hget P key MESSAGE),
                wP\<lparr>keyspace := snd (hmset P key [(REPLY_FAST_POLLS_LEFT, str_int (n - 1))])\<rparr>)
             else (Returns (SLOW_DEQUEUE_POLLING_SECS cfg, hget P key MESSAGE), wP))"
    unfolding prepare_def 1
    by (cases "fast_polls_of cfg (hget (keyspace w) key REPLY_FAST_POLLS_LEFT)")
       (simp_all add: seq_def cq redis_hget_eq return_def meanwhile_quiet q m k)
  then show ?thesis
    unfolding Let_def P_def [symmetric] by (simp add: wP_def cong: option.case_cong if_cong)
qed

lemma elapse_add: "elapse a (elapse b ks) = elapse (a + b) ks"
  by (induction ks) (auto simp: elapse_def option.map_comp comp_def algebra_simps)

lemma elapse_zero: "elapse 0 ks = ks"
  by (induction ks) (auto simp: elapse_def option.map_ident)

lemma hget_elapse_None: "0 \<le> d \<Longrightarrow> hget ks key f = None \<Longrightarrow> hget (elapse d ks) key f = None"
  by (auto simp: hget_def lookup_elapse split: option.splits)

lemma lookup_elapse_alive:
  assumes "0 \<le> d" and "lookup ks key = Some e" and "ttl e = Some t" and "d < t"
  shows "lookup (elapse d ks) key = Some (e\<lparr>ttl := Some (t - d)\<rparr>)"
  using assms by (simp add: lookup_elapse)

lemma poll_quiet_miss:
  assumes "0 < secs"
  shows "others w = [] \<Longrightarrow> hget (keyspace w) key MESSAGE = None \<Longrightarrow>
     poll key secs None left w =
       Some (Returns None,
             w\<lparr>keyspace := elapse (real (nat \<lceil>left / secs\<rceil>) * secs) (keyspace w),
               naps := naps w @ replicate (nat \<lceil>left / secs\<rceil>) secs\<rparr>)"
proof (induction "nat \<lceil>left / secs\<rceil>" arbitrary: left w rule: less_induct)
  case less
  show ?case
  proof (cases "0 < left")
    case False
    then have "left / secs \<le> 0" using assms by (simp add: divide_le_0_iff)
    then have "nat \<lceil>left / secs\<rceil> = 0" by (simp add: ceiling_le_zero)
    then show ?thesis using False by (subst poll.simps) (simp add: elapse_zero)
  next
    case True
    define w1 where "w1 = w\<lparr>keyspace := elapse secs (keyspace w), naps := naps w @ [secs]\<rparr>"
    have c: "\<lceil>(left - secs) / secs\<rceil> = \<lceil>left / secs\<rceil> - 1"
      using assms by (simp add: diff_divide_distrib)
    have p: "0 < \<lceil>left / secs\<rceil>"
      using True assms by (simp add: ceiling_less_iff)
    have "nat \<lceil>left / secs\<rceil> = Suc (nat (\<lceil>left / secs\<rceil> - 1))"
      using p by linarith
    then have n: "nat \<lceil>left / secs\<rceil> = Suc (nat \<lceil>(left - secs) / secs\<rceil>)"
      by (simp only: c)
    have lt: "nat \<lceil>(left - secs) / secs\<rceil> < nat \<lceil>left / secs\<rceil>"
      using n by simp
    have q1: "others w1 = []" using less.prems(1) by (simp add: w1_def)
    have m1: "hget (keyspace w1) key MESSAGE = None"
      using less.prems(2) assms by (simp add: w1_def hget_elapse_None)
    have step: "poll key secs None left w = poll key secs None (left - secs) w1"
      using True assms q1 m1
      by (subst poll.simps) (simp add: sleep_def meanwhile_quiet w1_def [symmetric])
    show ?thesis
      unfolding step less.hyps [OF lt q1 m1] n
      by (simp add: w1_def elapse_add algebra_simps)
  qed
qed

lemma dequeue_try_idle:
  assumes "others w = []" and "hget (keyspace w) key DEQUEUE_BUSY \<noteq> Some DEQUEUE_BUSY_STATUS"
  shows "dequeue_try cfg tm key reset_first w
           = map_option (\<lambda>(r, w2). (r, True, w2)) (dequeue_wait cfg tm key reset_first w)"
  using assms
  by (auto simp: dequeue_try_def Let_def meanwhile_quiet status_names split: option.splits)

lemma dequeue_quiet_miss:
  assumes quiet: "others w = []"
    and idle: "hget (keyspace w) (channel @ '':'' @ operation) DEQUEUE_BUSY \<noteq> Some DEQUEUE_BUSY_STATUS"
    and count: "fast_polls_of cfg (hget (keyspace w) (channel @ '':'' @ operation) REPLY_FAST_POLLS_LEFT) = Some c"
    and empty: "reset_first \<or> hget (keyspace w) (channel @ '':'' @ operation) MESSAGE = None"
    and secs: "secs = (if 0 < c then FAST_DEQUEUE_POLLING_SECS cfg else SLOW_DEQUEUE_POLLING_SECS cfg)"
    and pos: "0 < secs"
  shows "dequeue cfg tm operation channel reset_first w =
     Some (Returns (None, True),
           w\<lparr>keyspace :=
               snd (hmset
                      (elapse (real (nat \<lceil>DEQUEUE_TIMEOUT_SECS cfg / secs\<rceil>) * secs)
                         (if 0 < c
                          then snd (hmset (prepared (channel @ '':'' @ operation) reset_first (keyspace w))
                                      (channel @ '':'' @ operation)
                                      [(REPLY_FAST_POLLS_LEFT, str_int (c - 1))])
                          else prepared (channel @ '':'' @ operation) reset_first (keyspace w)))
                      (channel @ '':'' @ operation) [(DEQUEUE_BUSY, DEQUEUE_IDLE_STATUS)]),
             naps := naps w @ replicate (nat \<lceil>DEQUEUE_TIMEOUT_SECS cfg / secs\<rceil>) secs\<rparr>)"
proof -
  define key where "key = channel @ '':'' @ operation"
  define P where "P = prepared key reset_first (keyspace w)"
  define P' where "P' = (if 0 < c then snd (hmset P key [(REPLY_FAST_POLLS_LEFT, str_int (c - 1))]) else P)"
  define w1 where "w1 = w\<lparr>keyspace := P'\<rparr>"
  define k where "k = nat \<lceil>DEQUEUE_TIMEOUT_SECS cfg / secs\<rceil>"
  have m: "hget P key MESSAGE = None"
    using empty by (auto simp: P_def key_def hget_prepared field_names)
  have m': "hget (keyspace w1) key MESSAGE = None"
    using m by (simp add: w1_def P'_def hget_hmset field_names)
  have q1: "others w1 = []" by (simp add: w1_def quiet)
  have prep: "prepare cfg key reset_first w = (Returns (secs, None), w1)"
    unfolding prepare_quiet [OF quiet] Let_def P_def [symmetric]
    using count secs m by (simp add: key_def w1_def P'_def)
  have pl: "poll key secs None (DEQUEUE_TIMEOUT_SECS cfg) w1 =
       Some (Returns None,
             w1\<lparr>keyspace := elapse (real k * secs) (keyspace w1), naps := naps w1 @ replicate k secs\<rparr>)"
    unfolding k_def by (rule poll_quiet_miss [OF pos q1 m'])
  have wait: "dequeue_wait cfg tm key reset_first w =
       Some (Returns None,
             w1\<lparr>keyspace := elapse (real k * secs) (keyspace w1), naps := naps w1 @ replicate k secs\<rparr>)"
    by (simp add: dequeue_wait_def prep pl consume_def truthy_def return_def)
  have "dequeue cfg tm operation channel reset_first w =
     Some (Returns (None, True),
           w\<lparr>keyspace := snd (hmset (elapse (real k * secs) P') key [(DEQUEUE_BUSY, DEQUEUE_IDLE_STATUS)]),
             naps := naps w @ replicate k secs\<rparr>)"
    unfolding dequeue_def Let_def key_def [symmetric]
      dequeue_try_idle [OF quiet idle [folded key_def]] wait
    by (simp add: set_key_value_eq meanwhile_quiet quiet w1_def)
  then show ?thesis
    unfolding k_def P'_def P_def key_def .
qed

lemma hget_elapse_alive:
  assumes "0 \<le> d" and "lookup ks key = Some e" and "ttl e = Some t" and "d < t"
  shows "hget (elapse d ks) key f = hget ks key f" and "ttl_of (elapse d ks) key = Some (t - d)"
  using assms by (simp_all add: hget_def ttl_of_def lookup_elapse)

lemma naps_bound:
  assumes "0 < secs"
  shows "0 \<le> real (nat \<lceil>t / secs\<rceil>) * secs"
    and "real (nat \<lceil>t / secs\<rceil>) * secs < max t 0 + secs"
proof -
  show "0 \<le> real (nat \<lceil>t / secs\<rceil>) * secs" using assms by simp
  show "real (nat \<lceil>t / secs\<rceil>) * secs < max t 0 + secs"
  proof (cases "0 < t")
    case False
    then have "t / secs \<le> 0" using assms by (simp add: divide_le_0_iff)
    then have "nat \<lceil>t / secs\<rceil> = 0" by (simp add: ceiling_le_zero)
    then show ?thesis using assms False by simp
  next
    case True
    then have "0 < t / secs" using assms by simp
    then have "0 < \<lceil>t / secs\<rceil>" by (simp only: zero_less_ceiling)
    then have "real (nat \<lceil>t / secs\<rceil>) = of_int \<lceil>t / secs\<rceil>" by simp
    also have "\<dots> < t / secs + 1" by linarith
    finally have "real (nat \<lceil>t / secs\<rceil>) * secs < (t / secs + 1) * secs"
      using assms by simp
    also have "\<dots> = t + secs" using assms by (simp add: field_simps)
    finally show ?thesis using True by simp
  qed
qed

lemma dequeue_miss_effect:
  assumes quiet: "others w = []"
    and idle: "hget (keyspace w) (channel @ '':'' @ operation) DEQUEUE_BUSY \<noteq> Some DEQUEUE_BUSY_STATUS"
    and count: "fast_polls_of cfg (hget (keyspace w) (channel @ '':'' @ operation) REPLY_FAST_POLLS_LEFT) = Some c"
    and empty: "reset_first \<or> hget (keyspace w) (channel @ '':'' @ operation) MESSAGE = None"
    and secs: "secs = (if 0 < c then FAST_DEQUEUE_POLLING_SECS cfg else SLOW_DEQUEUE_POLLING_SECS cfg)"
    and pos: "0 < secs"
    and alive: "max (DEQUEUE_TIMEOUT_SECS cfg) 0 + secs \<le> EXPIRE_SECS"
  obtains w' where
    "dequeue cfg tm operation channel reset_first w = Some (Returns (None, True), w')"
    "others w' = []"
    "naps w' = naps w @ replicate (nat \<lceil>DEQUEUE_TIMEOUT_SECS cfg / secs\<rceil>) secs"
    "hget (keyspace w') (channel @ '':'' @ operation) MESSAGE = None"
    "hget (keyspace w') (channel @ '':'' @ operation) DEQUEUE_BUSY = Some DEQUEUE_IDLE_STATUS"
    "hget (keyspace w') (channel @ '':'' @ operation) REPLY_FAST_POLLS_LEFT
       = (if 0 < c then Some (str_int (c - 1))
          else hget (keyspace w) (channel @ '':'' @ operation) REPLY_FAST_POLLS_LEFT)"
    "fast_polls_of cfg (hget (keyspace w') (channel @ '':'' @ operation) REPLY_FAST_POLLS_LEFT)
       = Some (if 0 < c then c - 1 else c)"
    "ttl_of (keyspace w') (channel @ '':'' @ operation)
       = Some (EXPIRE_SECS - real (nat \<lceil>DEQUEUE_TIMEOUT_SECS cfg / secs\<rceil>) * secs)"
proof -
  define key where "key = channel @ '':'' @ operation"
  define P where "P = prepared key reset_first (keyspace w)"
  define P' where "P' = (if 0 < c then snd (hmset P key [(REPLY_FAST_POLLS_LEFT, str_int (c - 1))]) else P)"
  define k where "k = nat \<lceil>DEQUEUE_TIMEOUT_SECS cfg / secs\<rceil>"
  define d where "d = real k * secs"
  define K where "K = snd (hmset (elapse d P') key [(DEQUEUE_BUSY, DEQUEUE_IDLE_STATUS)])"
  define w' where "w' = w\<lparr>keyspace := K, naps := naps w @ replicate k secs\<rparr>"
  have deq: "dequeue cfg tm operation channel reset_first w = Some (Returns (None, True), w')"
    unfolding w'_def K_def d_def k_def P'_def P_def key_def
    by (rule dequeue_quiet_miss [OF quiet idle count empty secs pos])
  have d0: "0 \<le> d" and d1: "d < EXPIRE_SECS"
    using naps_bound [OF pos, of "DEQUEUE_TIMEOUT_SECS cfg"] alive by (simp_all add: d_def k_def)
  obtain e where e: "lookup P key = Some e" "ttl e = Some EXPIRE_SECS"
    using lookup_prepared_same [of key reset_first "keyspace w"] unfolding P_def by blast
  have "\<exists>e'. lookup P' key = Some e' \<and> ttl e' = Some EXPIRE_SECS"
    using e by (cases "0 < c") (simp_all add: P'_def lookup_hmset entry_of_def)
  then obtain e' where e': "lookup P' key = Some e'" "ttl e' = Some EXPIRE_SECS"
    by blast
  have hP: "hget P key f =
     (if f = DEQUEUE_BUSY then Some DEQUEUE_BUSY_STATUS else if f = PICKUP_TIME then Some []
      else if f = MESSAGE \<and> reset_first then None else hget (keyspace w) key f)" for f
    by (simp add: P_def hget_prepared)
  have hP': "hget P' key f =
     (if 0 < c \<and> f = REPLY_FAST_POLLS_LEFT then Some (str_int (c - 1)) else hget P key f)" for f
    by (simp add: P'_def hget_hmset)
  have hK: "hget K key f =
     (if f = DEQUEUE_BUSY then Some DEQUEUE_IDLE_STATUS else hget P' key f)" for f
    by (simp add: K_def hget_hmset hget_elapse_alive(1) [OF d0 e' d1])
  have tK: "ttl_of K key = Some (EXPIRE_SECS - d)"
    by (simp add: K_def ttl_of_hmset hget_elapse_alive(2) [OF d0 e' d1])
  have 1: "hget K key MESSAGE = None"
    using empty [folded key_def] by (auto simp: hK hP' hP field_names)
  have 2: "hget K key DEQUEUE_BUSY = Some DEQUEUE_IDLE_STATUS"
    by (simp add: hK)
  have 3: "hget K key REPLY_FAST_POLLS_LEFT
       = (if 0 < c then Some (str_int (c - 1)) else hget (keyspace w) key REPLY_FAST_POLLS_LEFT)"
    by (simp add: hK hP' hP field_names)
  have 4: "fast_polls_of cfg (hget K key REPLY_FAST_POLLS_LEFT) = Some (if 0 < c then c - 1 else c)"
    using count [folded key_def] unfolding 3 by (simp add: fast_polls_of_def py_int_str_int)
  have kw: "keyspace w' = K" by (simp add: w'_def)
  show thesis
  proof (rule that [of w'])
    show "dequeue cfg tm operation channel reset_first w = Some (Returns (None, True), w')"
      by (rule deq)
    show "others w' = []" by (simp add: w'_def quiet)
    show "naps w' = naps w @ replicate (nat \<lceil>DEQUEUE_TIMEOUT_SECS cfg / secs\<rceil>) secs"
      by (simp add: w'_def k_def)
    show "hget (keyspace w') (channel @ '':'' @ operation) MESSAGE = None"
      using 1 unfolding kw key_def .
    show "hget (keyspace w') (channel @ '':'' @ operation) DEQUEUE_BUSY = Some DEQUEUE_IDLE_STATUS"
      using 2 unfolding kw key_def .
    show "hget (keyspace w') (channel @ '':'' @ operation) REPLY_FAST_POLLS_LEFT
       = (if 0 < c then Some (str_int (c - 1))
          else hget (keyspace w) (channel @ '':'' @ operation) REPLY_FAST_POLLS_LEFT)"
      using 3 unfolding kw key_def .
    show "fast_polls_of cfg (hget (keyspace w') (channel @ '':'' @ operation) REPLY_FAST_POLLS_LEFT)
       = Some (if 0 < c then c - 1 else c)"
      using 4 unfolding kw key_def .
    show "ttl_of (keyspace w') (channel @ '':'' @ operation)
       = Some (EXPIRE_SECS - real (nat \<lceil>DEQUEUE_TIMEOUT_SECS cfg / secs\<rceil>) * secs)"
      using tK unfolding kw key_def d_def k_def .
  qed
qed

lemma poll_found: "poll key secs (Some m) left w = Some (Returns (Some m), w)"
  by (subst poll.simps) simp

lemma ttl_of_hdel_kept:
  assumes "g \<noteq> f" and "hget ks key g \<noteq> None"
  shows "ttl_of (snd (hdel ks key f)) key = ttl_of ks key"
proof -
  obtain e where e: "lookup ks key = Some e" and g: "map_of (hash e) g \<noteq> None"
    using assms(2) by (auto simp: hget_def split: option.splits)
  have "AList.delete f (hash e) \<noteq> []"
    using delete_empty_map_of [of f "hash e" g] assms(1) g by blast
  then show ?thesis
    using e by (simp add: ttl_of_def lookup_hdel)
qed

lemma dequeue_hit_effect:
  assumes quiet: "others w = []"
    and idle: "hget (keyspace w) (channel @ '':'' @ operation) DEQUEUE_BUSY \<noteq> Some DEQUEUE_BUSY_STATUS"
    and count: "fast_polls_of cfg (hget (keyspace w) (channel @ '':'' @ operation) REPLY_FAST_POLLS_LEFT) = Some c"
    and msg: "hget (keyspace w) (channel @ '':'' @ operation) MESSAGE = Some m"
    and ne: "m \<noteq> []"
  obtains w' where
    "dequeue cfg tm operation channel False w = Some (Returns (Some m, True), w')"
    "others w' = []" "naps w' = naps w"
    "\<And>f. hget (keyspace w') (channel @ '':'' @ operation) f =
       (if f = DEQUEUE_BUSY then Some DEQUEUE_IDLE_STATUS
        else if f = PICKUP_TIME then Some (asctime tm)
        else if f = REPLY_FAST_POLLS_LEFT then Some (str_int (ALLOWED_FAST_DEQUEUE_POLLS cfg))
        else if f = MESSAGE then None
        else hget (keyspace w) (channel @ '':'' @ operation) f)"
    "ttl_of (keyspace w') (channel @ '':'' @ operation) = Some EXPIRE_SECS"
    "\<And>k. k \<noteq> channel @ '':'' @ operation \<Longrightarrow> lookup (keyspace w') k = lookup (keyspace w) k"
proof -
  define key where "key = channel @ '':'' @ operation"
  define P where "P = prepared key False (keyspace w)"
  define P' where "P' = (if 0 < c then snd (hmset P key [(REPLY_FAST_POLLS_LEFT, str_int (c - 1))]) else P)"
  define secs where "secs = (if 0 < c then FAST_DEQUEUE_POLLING_SECS cfg else SLOW_DEQUEUE_POLLING_SECS cfg)"
  define D where "D = snd (hdel P' key MESSAGE)"
  define S where "S = snd (hmset D key [(PICKUP_TIME, asctime tm),
                     (REPLY_FAST_POLLS_LEFT, str_int (ALLOWED_FAST_DEQUEUE_POLLS cfg))])"
  define K where "K = snd (hmset S key [(DEQUEUE_BUSY, DEQUEUE_IDLE_STATUS)])"
  define w1 where "w1 = w\<lparr>keyspace := P'\<rparr>"
  define w' where "w' = w\<lparr>keyspace := K\<rparr>"
  have hP: "hget P key f =
     (if f = DEQUEUE_BUSY then Some DEQUEUE_BUSY_STATUS else if f = PICKUP_TIME then Some []
      else hget (keyspace w) key f)" for f
    by (simp add: P_def hget_prepared)
  have hP': "hget P' key f =
     (if 0 < c \<and> f = REPLY_FAST_POLLS_LEFT then Some (str_int (c - 1)) else hget P key f)" for f
    by (simp add: P'_def hget_hmset)
  have mP: "hget P key MESSAGE = Some m"
    using msg [folded key_def] by (simp add: hP field_names)
  have mP': "hget P' key MESSAGE = Some m"
    using mP by (simp add: hP' field_names)
  have q1: "others w1 = []" by (simp add: w1_def quiet)
  have prep: "prepare cfg key False w = (Returns (secs, Some m), w1)"
    unfolding prepare_quiet [OF quiet] Let_def P_def [symmetric]
    using count [folded key_def] mP by (simp add: w1_def P'_def secs_def)
  have cons: "consume cfg tm key (Some m) w1 = (Returns (Some m), w\<lparr>keyspace := S\<rparr>)"
    using ne mP'
    by (simp add: consume_def truthy_def seq_def del_message_strict set_key_value_eq return_def
          meanwhile_quiet quiet w1_def S_def D_def)
  have wait: "dequeue_wait cfg tm key False w = Some (Returns (Some m), w\<lparr>keyspace := S\<rparr>)"
    by (simp add: dequeue_wait_def prep poll_found cons)
  have deq: "dequeue cfg tm operation channel False w = Some (Returns (Some m, True), w')"
    unfolding dequeue_def Let_def key_def [symmetric]
      dequeue_try_idle [OF quiet idle [folded key_def]] wait
    by (simp add: set_key_value_eq meanwhile_quiet quiet w'_def K_def)
  have hK: "hget K key f =
       (if f = DEQUEUE_BUSY then Some DEQUEUE_IDLE_STATUS
        else if f = PICKUP_TIME then Some (asctime tm)
        else if f = REPLY_FAST_POLLS_LEFT then Some (str_int (ALLOWED_FAST_DEQUEUE_POLLS cfg))
        else if f = MESSAGE then None
        else hget (keyspace w) key f)" for f
    by (simp add: K_def S_def D_def hget_hmset hget_hdel hP' hP field_names)
  have "ttl_of P key = Some EXPIRE_SECS"
    using lookup_prepared_same [of key False "keyspace w"]
    by (auto simp: P_def ttl_of_def)
  then have tP': "ttl_of P' key = Some EXPIRE_SECS"
    by (simp add: P'_def ttl_of_hmset)
  have "hget P' key DEQUEUE_BUSY \<noteq> None" by (simp add: hP' hP field_names)
  then have "ttl_of D key = ttl_of P' key"
    unfolding D_def by (rule ttl_of_hdel_kept [rotated]) (simp add: field_names)
  then have tK: "ttl_of K key = Some EXPIRE_SECS"
    by (simp add: K_def S_def ttl_of_hmset tP')
  have oK: "lookup K k = lookup (keyspace w) k" if "k \<noteq> key" for k
    using that
    by (simp add: K_def S_def D_def P'_def P_def lookup_hmset lookup_hdel lookup_prepared_other)
  have kw: "keyspace w' = K" by (simp add: w'_def)
  show thesis
  proof (rule that [of w'])
    show "dequeue cfg tm operation channel False w = Some (Returns (Some m, True), w')"
      by (rule deq)
    show "others w' = []" "naps w' = naps w" by (simp_all add: w'_def quiet)
    show "hget (keyspace w') (channel @ '':'' @ operation) f =
       (if f = DEQUEUE_BUSY then Some DEQUEUE_IDLE_STATUS
        else if f = PICKUP_TIME then Some (asctime tm)
        else if f = REPLY_FAST_POLLS_LEFT then Some (str_int (ALLOWED_FAST_DEQUEUE_POLLS cfg))
        else if f = MESSAGE then None
        else hget (keyspace w) (channel @ '':'' @ operation) f)" for f
      using hK [of f] unfolding kw key_def .
    show "ttl_of (keyspace w') (channel @ '':'' @ operation) = Some EXPIRE_SECS"
      using tK unfolding kw key_def .
    show "lookup (keyspace w') k = lookup (keyspace w) k" if "k \<noteq> channel @ '':'' @ operation" for k
      using oK [of k] that unfolding kw key_def by simp
  qed
qed

lemma poll_quiet_invariant_aux:
  assumes step: "\<And>d ks. 0 \<le> d \<Longrightarrow> I ks \<Longrightarrow> I (elapse d ks)"
    and run: "poll key0 secs0 m0 left0 w0 = Some y0"
  shows "others w0 = [] \<longrightarrow> I (keyspace w0) \<longrightarrow> others (snd y0) = [] \<and> I (keyspace (snd y0))"
proof (rule poll.raw_induct
    [where P = "\<lambda>key secs m left w y.
        others w = [] \<longrightarrow> I (keyspace w) \<longrightarrow> others (snd y) = [] \<and> I (keyspace (snd y))",
     OF _ run], goal_cases)
  case (1 poll' key secs m left w y)
  show ?case
  proof (intro impI)
    assume q: "others w = []" and i: "I (keyspace w)"
    show "others (snd y) = [] \<and> I (keyspace (snd y))"
    proof (cases "m = None \<and> 0 < left")
      case False
      then show ?thesis using 1(2) q i by auto
    next
      case True
      note loop = True
      show ?thesis
      proof (cases "secs < 0")
        case True
        then show ?thesis using 1(2) loop q i by (auto simp: sleep_def)
      next
        case False
        define w1 where "w1 = w\<lparr>keyspace := elapse secs (keyspace w), naps := naps w @ [secs]\<rparr>"
        have q1: "others w1 = []" using q by (simp add: w1_def)
        have i1: "I (keyspace w1)" using step [of secs "keyspace w"] False i by (simp add: w1_def)
        have "poll' key secs (hget (keyspace w1) key MESSAGE) (left - secs) w1 = Some y"
          using 1(2) loop False q1 by (simp add: sleep_def meanwhile_quiet w1_def [symmetric])
        from 1(1) [OF this] q1 i1 show ?thesis by blast
      qed
    qed
  qed
qed

lemma poll_quiet_invariant:
  assumes "\<And>d ks. 0 \<le> d \<Longrightarrow> I ks \<Longrightarrow> I (elapse d ks)"
    and "poll key secs m left w = Some (r, w')" and "others w = []" and "I (keyspace w)"
  shows "others w' = [] \<and> I (keyspace w')"
  using poll_quiet_invariant_aux [of I, OF assms(1,2)] assms(3,4) by simp

subsection \<open>\<^verbatim>\<open>_dequeue\<close>: the fast-poll counter\<close>

lemma hget_elapse_cases:
  "0 \<le> d \<Longrightarrow> hget (elapse d ks) key f = None \<or> hget (elapse d ks) key f = hget ks key f"
  by (auto simp: hget_def lookup_elapse split: option.splits)

lemma counter_ok_cong:
  "hget ks' key REPLY_FAST_POLLS_LEFT = hget ks key REPLY_FAST_POLLS_LEFT \<Longrightarrow>
   counter_ok ks' key = counter_ok ks key"
  by (simp add: counter_ok_def)

lemma counter_ok_absent: "hget ks key REPLY_FAST_POLLS_LEFT = None \<Longrightarrow> counter_ok ks key"
  by (simp add: counter_ok_def)

lemma counter_ok_written:
  "hget ks key REPLY_FAST_POLLS_LEFT = Some (str_int n) \<Longrightarrow> 0 \<le> n \<Longrightarrow> counter_ok ks key"
  by (simp add: counter_ok_def py_int_str_int)

lemma counter_ok_elapse: "0 \<le> d \<Longrightarrow> counter_ok ks key \<Longrightarrow> counter_ok (elapse d ks) key"
  using hget_elapse_cases [of d ks key REPLY_FAST_POLLS_LEFT]
  by (auto simp: counter_ok_def)

lemma counter_ok_reads:
  assumes "counter_ok ks key" and "0 \<le> ALLOWED_FAST_DEQUEUE_POLLS cfg"
  obtains c where "fast_polls_of cfg (hget ks key REPLY_FAST_POLLS_LEFT) = Some c" and "0 \<le> c"
  using assms by (auto simp: counter_ok_def fast_polls_of_def split: option.splits)

lemma consume_counter_ok:
  assumes "others w = []" and "0 \<le> ALLOWED_FAST_DEQUEUE_POLLS cfg"
    and "counter_ok (keyspace w) key" and "consume cfg tm key m w = (r, w')"
  shows "counter_ok (keyspace w') key \<and> others w' = []"
proof (cases "truthy m")
  case False
  then show ?thesis using assms by (auto simp: consume_def return_def)
next
  case True
  show ?thesis
  proof (cases "hget (keyspace w) key MESSAGE = None")
    case True
    then show ?thesis
      using assms \<open>truthy m\<close>
      by (auto simp: consume_def seq_def del_message_strict meanwhile_quiet)
  next
    case False
    have "hget (keyspace w') key REPLY_FAST_POLLS_LEFT = Some (str_int (ALLOWED_FAST_DEQUEUE_POLLS cfg))"
      and "others w' = []"
      using assms(1,4) \<open>truthy m\<close> False
      by (auto simp: consume_def seq_def del_message_strict set_key_value_eq return_def
            meanwhile_quiet hget_hmset field_names)
    then show ?thesis using counter_ok_written assms(2) by blast
  qed
qed

lemma prepare_counter_ok:
  assumes "others w = []" and "0 \<le> ALLOWED_FAST_DEQUEUE_POLLS cfg"
    and "counter_ok (keyspace w) key" and "prepare cfg key reset_first w = (r, w')"
  shows "counter_ok (keyspace w') key \<and> others w' = []"
proof -
  from assms(3,2) obtain c where c: "fast_polls_of cfg (hget (keyspace w) key REPLY_FAST_POLLS_LEFT) = Some c"
    and c0: "0 \<le> c" by (rule counter_ok_reads)
  have p: "hget (prepared key reset_first (keyspace w)) key REPLY_FAST_POLLS_LEFT
             = hget (keyspace w) key REPLY_FAST_POLLS_LEFT"
    by (simp add: hget_prepared field_names)
  show ?thesis
  proof (cases "0 < c")
    case True
    then have "hget (keyspace w') key REPLY_FAST_POLLS_LEFT = Some (str_int (c - 1))"
      and "others w' = []"
      using assms(1,4) c unfolding prepare_quiet [OF assms(1)] Let_def
      by (auto simp: hget_hmset)
    then show ?thesis using counter_ok_written [of "keyspace w'" key "c - 1"] True by simp
  next
    case False
    then have "keyspace w' = prepared key reset_first (keyspace w)" and "others w' = []"
      using assms(1,4) c unfolding prepare_quiet [OF assms(1)] Let_def by auto
    then show ?thesis using counter_ok_cong [OF p] assms(3) by simp
  qed
qed

lemma dequeue_counter_ok:
  assumes quiet: "others w = []" and allowed: "0 \<le> ALLOWED_FAST_DEQUEUE_POLLS cfg"
    and ok: "counter_ok (keyspace w) (channel @ '':'' @ operation)"
    and run: "dequeue cfg tm operation channel reset_first w = Some (out, w')"
  shows "counter_ok (keyspace w') (channel @ '':'' @ operation) \<and> others w' = []"
proof -
  define key where "key = channel @ '':'' @ operation"
  note ok' = ok [folded key_def]
  show ?thesis
  proof (cases "hget (keyspace w) key DEQUEUE_BUSY = Some DEQUEUE_BUSY_STATUS")
    case True
    then have "w' = w"
      using run dequeue_busy [of w channel operation cfg tm reset_first] quiet
      by (simp add: meanwhile_quiet key_def)
    then show ?thesis using ok quiet by simp
  next
    case False
    obtain r w3 where wait: "dequeue_wait cfg tm key reset_first w = Some (r, w3)"
      using run unfolding dequeue_def Let_def key_def [symmetric] dequeue_try_idle [OF quiet False]
      by (auto split: option.splits)
    have inv3: "counter_ok (keyspace w3) key \<and> others w3 = []"
    proof (cases "prepare cfg key reset_first w")
      case (Pair r1 w1)
      note inv1 = prepare_counter_ok [OF quiet allowed ok' Pair]
      show ?thesis
      proof (cases r1)
        case (Raises e)
        then show ?thesis using wait Pair inv1 by (simp add: dequeue_wait_def)
      next
        case (Returns p)
        obtain secs m where p: "p = (secs, m)" by (cases p)
        obtain r2 w2 where pl: "poll key secs m (DEQUEUE_TIMEOUT_SECS cfg) w1 = Some (r2, w2)"
          using wait Pair Returns p by (auto simp: dequeue_wait_def split: option.splits)
        have inv2: "others w2 = [] \<and> counter_ok (keyspace w2) key"
          by (rule poll_quiet_invariant [where I = "\<lambda>ks. counter_ok ks key", OF _ pl])
             (use inv1 counter_ok_elapse in auto)
        show ?thesis
        proof (cases r2)
          case (Raises e)
          then show ?thesis using wait Pair Returns p pl inv2 by (simp add: dequeue_wait_def)
        next
          case (Returns m2)
          then have "consume cfg tm key m2 w2 = (r, w3)"
            using wait Pair \<open>r1 = Returns p\<close> p pl by (simp add: dequeue_wait_def)
          from consume_counter_ok [OF _ allowed _ this] inv2 show ?thesis by simp
        qed
      qed
    qed
    have "w' = w3\<lparr>keyspace := snd (hmset (keyspace w3) key [(DEQUEUE_BUSY, DEQUEUE_IDLE_STATUS)])\<rparr>"
      using run inv3 unfolding dequeue_def Let_def key_def [symmetric]
        dequeue_try_idle [OF quiet False] wait
      by (auto simp: set_key_value_eq meanwhile_quiet split: outcome.splits)
    then have "hget (keyspace w') key REPLY_FAST_POLLS_LEFT = hget (keyspace w3) key REPLY_FAST_POLLS_LEFT"
      and "others w' = []"
      using inv3 by (simp_all add: hget_hmset field_names)
    then show ?thesis
      using counter_ok_cong inv3 unfolding key_def by blast
  qed
qed

end
